theory Spec2Isabelle
  imports Main "HOL-Library.Sublist" "HOL-Library.Char_ord" "HOL-Library.List_Lexorder"
    "HOL-Library.AList"
begin

section \<open>JSON values and the string helpers of the Go standard library\<close>

text \<open>
  A decoded JSON value, as \<^verbatim>\<open>interface{}\<close> holds it after unmarshalling:
  \<^verbatim>\<open>nil\<close>, \<^verbatim>\<open>bool\<close>, \<^verbatim>\<open>float64\<close>, \<^verbatim>\<open>string\<close>, \<^verbatim>\<open>[]interface{}\<close> and
  \<^verbatim>\<open>map[string]interface{}\<close>. The code never computes with a number, it only prints
  it, so a \<^verbatim>\<open>float64\<close> is carried as the text the \<^verbatim>\<open>%v\<close> verb prints for it (that
  text determines the number). A Go map is an association list with distinct keys;
  no result below depends on the order of its entries.
\<close>

datatype json =
    JNull
  | JBool bool
  | JNum string
  | JStr string
  | JArr "json list"
  | JObj "(string \<times> json) list"

text \<open>\<^verbatim>\<open>strings.Split(s, sep)\<close> for a one-byte separator: never empty, one more piece
  than there are separators.\<close>

fun Split :: "string \<Rightarrow> char \<Rightarrow> string list" where
  "Split [] sep = [[]]"
| "Split (c # cs) sep =
     (if c = sep then [] # Split cs sep
      else (case Split cs sep of [] \<Rightarrow> [[c]] | x # xs \<Rightarrow> (c # x) # xs))"

text \<open>\<^verbatim>\<open>strings.SplitN(s, sep, 2)\<close>: cut at the first separator only.\<close>

definition SplitN2 :: "string \<Rightarrow> char \<Rightarrow> string list" where
  "SplitN2 s sep =
     (if sep \<in> set s then [takeWhile (\<lambda>c. c \<noteq> sep) s, tl (dropWhile (\<lambda>c. c \<noteq> sep) s)]
      else [s])"

fun Join :: "string list \<Rightarrow> string \<Rightarrow> string" where
  "Join [] sep = []"
| "Join [x] sep = x"
| "Join (x # y # ys) sep = x @ sep @ Join (y # ys) sep"

fun Contains :: "string \<Rightarrow> string \<Rightarrow> bool" where
  "Contains [] sub = (sub = [])"
| "Contains (c # cs) sub = (prefix sub (c # cs) \<or> Contains cs sub)"

section \<open>The request translator (antigravity\_claude\_request\_v2.go)\<close>

subsection \<open>Source and target structures\<close>

typedecl float64

record ImageSource =
  is_Type :: string
  is_MediaType :: string
  is_Data :: string

text \<open>A \<^verbatim>\<open>json.RawMessage\<close> field holds the raw text of one JSON value of the decoded
  request, or is empty when the key is absent: it is modelled as \<open>json option\<close>.\<close>

record ClaudeContentItem =
  ci_Type :: string
  ci_Text :: string
  ci_Signature :: string
  ci_Thinking :: string
  ci_Name :: string
  ci_ID :: string
  ci_Input :: "json option"
  ci_ToolUseID :: string
  ci_Content :: "json option"
  ci_Source :: "ImageSource option"

text \<open>\<^verbatim>\<open>msg.Content\<close> as the two \<^verbatim>\<open>sonic.Unmarshal\<close> attempts of the message loop
  read it: an array of content items, else a string, else neither.\<close>

datatype MessageContent =
    ContentArray "ClaudeContentItem list"
  | ContentString string
  | ContentOther

record ClaudeMessage =
  m_Role :: string
  m_Content :: MessageContent

record ClaudeThinking =
  th_Type :: string
  th_BudgetTokens :: "int option"

record ClaudeRequest =
  r_Messages :: "ClaudeMessage list"
  r_Thinking :: "ClaudeThinking option"
  r_Temperature :: "float64 option"
  r_TopP :: "float64 option"
  r_TopK :: "float64 option"
  r_MaxTokens :: "float64 option"

record FunctionCall =
  fc_ID :: string
  fc_Name :: string
  fc_Args :: json

record FunctionResponse =
  fr_ID :: string
  fr_Name :: string
  fr_Response :: "(string \<times> json) list"

record InlineData =
  id_MimeType :: string
  id_Data :: string

record Part =
  p_Text :: string
  p_Thought :: "bool option"
  p_ThoughtSignature :: string
  p_FunctionCall :: "FunctionCall option"
  p_FunctionResponse :: "FunctionResponse option"
  p_InlineData :: "InlineData option"

record ContentItem =
  c_Role :: string
  c_Parts :: "Part list"

text \<open>\<^verbatim>\<open>ThinkingConfig\<close> with the \<^verbatim>\<open>ThinkingLevel\<close> field that the V2 translator writes.\<close>

record ThinkingConfig =
  tc_ThinkingBudget :: "int option"
  tc_IncludeThoughts :: bool
  tc_ThinkingLevel :: string

record GenerationConfig =
  gc_Temperature :: "float64 option"
  gc_TopP :: "float64 option"
  gc_TopK :: "float64 option"
  gc_MaxOutputTokens :: "float64 option"
  gc_ThinkingConfig :: "ThinkingConfig option"

text \<open>The part of the output the message loop and the generation-config block write.
  The system instruction and the tool declarations fill other fields and read neither
  the parts nor \<^verbatim>\<open>enableThoughtTranslate\<close>.\<close>

record RequestContent =
  rc_Contents :: "ContentItem list"
  rc_GenerationConfig :: "GenerationConfig option"

text \<open>Package \<^verbatim>\<open>internal/cache\<close> is a collaborator outside the translated files: its two
  functions are parameters of the translator.\<close>

record SignatureCache =
  HasValidSignature :: "string \<Rightarrow> string \<Rightarrow> bool"
  GetCachedSignature :: "string \<Rightarrow> string \<Rightarrow> string"

definition emptyPart :: Part where
  "emptyPart = \<lparr>p_Text = [], p_Thought = None, p_ThoughtSignature = [],
     p_FunctionCall = None, p_FunctionResponse = None, p_InlineData = None\<rparr>"

subsection \<open>Content-block translators\<close>

text \<open>\<^verbatim>\<open>processThinkingContentV2\<close>: the result is \<open>(part, signature, skip)\<close> together
  with the new value of \<^verbatim>\<open>*enableThoughtTranslate\<close>.\<close>

definition processThinkingContentV2 ::
  "SignatureCache \<Rightarrow> ClaudeContentItem \<Rightarrow> string \<Rightarrow> bool \<Rightarrow> (Part option \<times> string \<times> bool) \<times> bool" where
  "processThinkingContentV2 sigCache ci modelName enableThoughtTranslate =
     (let thinkingText = (if ci_Thinking ci = [] then ci_Text ci else ci_Thinking ci);
          cachedSig = (if thinkingText \<noteq> [] then GetCachedSignature sigCache modelName thinkingText else []);
          arrayClientSignatures = SplitN2 (ci_Signature ci) CHR ''#'';
          signature =
            (if cachedSig = [] \<and> ci_Signature ci \<noteq> []
                \<and> length arrayClientSignatures = 2 \<and> modelName = arrayClientSignatures ! 0
                \<and> HasValidSignature sigCache modelName (arrayClientSignatures ! 1)
             then arrayClientSignatures ! 1 else cachedSig)
      in if \<not> HasValidSignature sigCache modelName signature then ((None, [], True), False)
         else ((Some (emptyPart\<lparr>p_Text := thinkingText, p_Thought := Some True,
                                   p_ThoughtSignature := signature\<rparr>), signature, False),
               enableThoughtTranslate))"

text \<open>\<^verbatim>\<open>sonic.Unmarshal\<close> into a \<^verbatim>\<open>map[string]interface{}\<close>: a JSON object decodes, and
  so does JSON \<^verbatim>\<open>null\<close> (Go leaves the map nil and reports no error); every other
  value is an error. The result is the value that marshalling the map gives back.\<close>

fun unmarshalMap :: "json \<Rightarrow> json option" where
  "unmarshalMap (JObj kvs) = Some (JObj kvs)"
| "unmarshalMap JNull = Some JNull"
| "unmarshalMap _ = None"

text \<open>\<^verbatim>\<open>processToolUseContentV2\<close>; \<open>unmarshalString\<close> is the JSON parser applied to the
  text of a string-encoded input.\<close>

definition processToolUseContentV2 ::
  "SignatureCache \<Rightarrow> (string \<Rightarrow> json option) \<Rightarrow> ClaudeContentItem \<Rightarrow> string \<Rightarrow> Part option" where
  "processToolUseContentV2 sigCache unmarshalString ci currentMessageThinkingSignature =
     (case ci_Input ci of
        None \<Rightarrow> None
      | Some input \<Rightarrow>
          (let args =
             (case unmarshalMap input of
                Some _ \<Rightarrow> Some input
              | None \<Rightarrow>
                  (case input of
                     JStr inputStr \<Rightarrow>
                       (case unmarshalString inputStr of
                          None \<Rightarrow> None
                        | Some v \<Rightarrow> unmarshalMap v)
                   | _ \<Rightarrow> None));
               thoughtSig =
                 (if HasValidSignature sigCache [] currentMessageThinkingSignature
                  then currentMessageThinkingSignature
                  else ''skip_thought_signature_validator'')
           in case args of
                None \<Rightarrow> None
              | Some a \<Rightarrow>
                  Some (emptyPart\<lparr>p_ThoughtSignature := thoughtSig,
                     p_FunctionCall := Some \<lparr>fc_ID = ci_ID ci, fc_Name = ci_Name ci, fc_Args = a\<rparr>\<rparr>)))"

text \<open>The function name of a tool result, as both translators derive it from the
  tool-use id.\<close>

definition toolResultFuncName :: "string \<Rightarrow> string" where
  "toolResultFuncName toolUseID =
     (let toolCallIDs = Split toolUseID CHR ''-''
      in if length toolCallIDs > 1
         then Join (take (length toolCallIDs - 2) toolCallIDs) ''-''
         else toolUseID)"

text \<open>The \<^verbatim>\<open>result\<close> entry: a string (JSON \<^verbatim>\<open>null\<close> decodes into the empty string), a
  one-element array unwrapped, any other value as it is.\<close>

fun toolResultResponseV2 :: "json option \<Rightarrow> (string \<times> json) list" where
  "toolResultResponseV2 None = []"
| "toolResultResponseV2 (Some (JStr s)) = [(''result'', JStr s)]"
| "toolResultResponseV2 (Some JNull) = [(''result'', JStr [])]"
| "toolResultResponseV2 (Some (JArr [x])) = [(''result'', x)]"
| "toolResultResponseV2 (Some v) = [(''result'', v)]"

definition processToolResultContentV2 :: "ClaudeContentItem \<Rightarrow> Part option" where
  "processToolResultContentV2 ci =
     (if ci_ToolUseID ci = [] then None
      else Some (emptyPart\<lparr>p_FunctionResponse :=
             Some \<lparr>fr_ID = ci_ToolUseID ci, fr_Name = toolResultFuncName (ci_ToolUseID ci),
                   fr_Response = toolResultResponseV2 (ci_Content ci)\<rparr>\<rparr>))"

definition processImageContentV2 :: "ClaudeContentItem \<Rightarrow> Part option" where
  "processImageContentV2 ci =
     (case ci_Source ci of
        None \<Rightarrow> None
      | Some src \<Rightarrow>
          (if is_Type src \<noteq> ''base64'' then None
           else Some (emptyPart\<lparr>p_InlineData :=
                  Some \<lparr>id_MimeType = is_MediaType src, id_Data = is_Data src\<rparr>\<rparr>)))"

subsection \<open>The message loop\<close>

record LoopState =
  enableThoughtTranslate :: bool
  currentMessageThinkingSignature :: string
  thinkingParts :: "Part list"
  otherParts :: "Part list"
  clientParts :: "Part list"

definition appendOther :: "string \<Rightarrow> Part option \<Rightarrow> LoopState \<Rightarrow> LoopState" where
  "appendOther role part st =
     (case part of
        None \<Rightarrow> st
      | Some p \<Rightarrow>
          (if role = ''model'' then st\<lparr>otherParts := otherParts st @ [p]\<rparr>
           else st\<lparr>clientParts := clientParts st @ [p]\<rparr>))"

definition contentItemStep ::
  "SignatureCache \<Rightarrow> (string \<Rightarrow> json option) \<Rightarrow> string \<Rightarrow> string \<Rightarrow> ClaudeContentItem \<Rightarrow> LoopState \<Rightarrow> LoopState" where
  "contentItemStep sigCache unmarshalString modelName role ci st =
     (if ci_Type ci = ''thinking'' then
        (case processThinkingContentV2 sigCache ci modelName (enableThoughtTranslate st) of
           ((part, signature, skip), enable) \<Rightarrow>
             (let st1 = st\<lparr>enableThoughtTranslate := enable\<rparr>
              in if skip then st1
                 else
                   (let st2 = (if HasValidSignature sigCache modelName signature
                               then st1\<lparr>currentMessageThinkingSignature := signature\<rparr> else st1)
                    in case part of
                         None \<Rightarrow> st2
                       | Some p \<Rightarrow>
                           (if role = ''model'' then st2\<lparr>thinkingParts := thinkingParts st2 @ [p]\<rparr>
                            else st2\<lparr>clientParts := clientParts st2 @ [p]\<rparr>))))
      else if ci_Type ci = ''text'' then
        appendOther role (Some (emptyPart\<lparr>p_Text := ci_Text ci\<rparr>)) st
      else if ci_Type ci = ''tool_use'' then
        appendOther role
          (processToolUseContentV2 sigCache unmarshalString ci (currentMessageThinkingSignature st)) st
      else if ci_Type ci = ''tool_result'' then
        appendOther role (processToolResultContentV2 ci) st
      else if ci_Type ci = ''image'' then
        appendOther role (processImageContentV2 ci) st
      else st)"

fun contentArrayLoop ::
  "SignatureCache \<Rightarrow> (string \<Rightarrow> json option) \<Rightarrow> string \<Rightarrow> string \<Rightarrow> ClaudeContentItem list \<Rightarrow> LoopState \<Rightarrow> LoopState" where
  "contentArrayLoop sigCache unmarshalString modelName role [] st = st"
| "contentArrayLoop sigCache unmarshalString modelName role (ci # cis) st =
     contentArrayLoop sigCache unmarshalString modelName role cis
       (contentItemStep sigCache unmarshalString modelName role ci st)"

definition initLoopState :: "bool \<Rightarrow> LoopState" where
  "initLoopState enable =
     \<lparr>enableThoughtTranslate = enable, currentMessageThinkingSignature = [],
      thinkingParts = [], otherParts = [], clientParts = []\<rparr>"

text \<open>The parts of one turn whose content is an array, for the (already mapped) role,
  and the flag after it.\<close>

definition turnParts ::
  "SignatureCache \<Rightarrow> (string \<Rightarrow> json option) \<Rightarrow> string \<Rightarrow> string \<Rightarrow> ClaudeContentItem list \<Rightarrow> bool \<Rightarrow> Part list \<times> bool" where
  "turnParts sigCache unmarshalString modelName role contentArray enable =
     (let st = contentArrayLoop sigCache unmarshalString modelName role contentArray (initLoopState enable)
      in (if role = ''model'' then thinkingParts st @ otherParts st else clientParts st,
          enableThoughtTranslate st))"

definition mapRole :: "string \<Rightarrow> string" where
  "mapRole role = (if role = ''assistant'' then ''model'' else role)"

fun processMessages ::
  "SignatureCache \<Rightarrow> (string \<Rightarrow> json option) \<Rightarrow> string \<Rightarrow> ClaudeMessage list \<Rightarrow> bool \<Rightarrow> ContentItem list \<times> bool" where
  "processMessages sigCache unmarshalString modelName [] enable = ([], enable)"
| "processMessages sigCache unmarshalString modelName (msg # msgs) enable =
     (let role = mapRole (m_Role msg) in
      case m_Content msg of
        ContentArray contentArray \<Rightarrow>
          (case turnParts sigCache unmarshalString modelName role contentArray enable of
             (parts, enable') \<Rightarrow>
               (case processMessages sigCache unmarshalString modelName msgs enable' of
                  (rest, enable'') \<Rightarrow>
                    ((if parts \<noteq> [] then [\<lparr>c_Role = role, c_Parts = parts\<rparr>] else []) @ rest,
                     enable'')))
      | ContentString contentStr \<Rightarrow>
          (case processMessages sigCache unmarshalString modelName msgs enable of
             (rest, enable'') \<Rightarrow>
               ((if contentStr \<noteq> [] then [\<lparr>c_Role = role, c_Parts = [emptyPart\<lparr>p_Text := contentStr\<rparr>]\<rparr>]
                 else []) @ rest, enable''))
      | ContentOther \<Rightarrow> processMessages sigCache unmarshalString modelName msgs enable)"

subsection \<open>Generation config\<close>

text \<open>The \<^verbatim>\<open>thinkingConfig\<close> the V2 translator writes: both mappings are guarded by
  \<^verbatim>\<open>enableThoughtTranslate\<close>, and the adaptive one is written last.\<close>

definition thinkingConfigV2 :: "bool \<Rightarrow> ClaudeThinking option \<Rightarrow> ThinkingConfig option" where
  "thinkingConfigV2 enable thinking =
     (let c1 =
        (case thinking of
           None \<Rightarrow> None
         | Some t \<Rightarrow>
             (if enable \<and> th_Type t = ''enabled'' then
                (case th_BudgetTokens t of
                   None \<Rightarrow> None
                 | Some budget \<Rightarrow>
                     Some \<lparr>tc_ThinkingBudget = Some budget, tc_IncludeThoughts = (budget \<noteq> 0),
                           tc_ThinkingLevel = []\<rparr>)
              else None))
      in case thinking of
           None \<Rightarrow> c1
         | Some t \<Rightarrow>
             (if enable \<and> th_Type t = ''adaptive''
              then Some \<lparr>tc_ThinkingBudget = None, tc_IncludeThoughts = True, tc_ThinkingLevel = ''high''\<rparr>
              else c1))"

definition generationConfigV2 :: "bool \<Rightarrow> ClaudeRequest \<Rightarrow> GenerationConfig option" where
  "generationConfigV2 enable req =
     (let genConfig = \<lparr>gc_Temperature = r_Temperature req, gc_TopP = r_TopP req, gc_TopK = r_TopK req,
                       gc_MaxOutputTokens = r_MaxTokens req,
                       gc_ThinkingConfig = thinkingConfigV2 enable (r_Thinking req)\<rparr>;
          hasGenConfig = (thinkingConfigV2 enable (r_Thinking req) \<noteq> None \<or> r_Temperature req \<noteq> None
                          \<or> r_TopP req \<noteq> None \<or> r_TopK req \<noteq> None \<or> r_MaxTokens req \<noteq> None)
      in if hasGenConfig then Some genConfig else None)"

definition ConvertClaudeRequestToAntigravityV2 ::
  "SignatureCache \<Rightarrow> (string \<Rightarrow> json option) \<Rightarrow> string \<Rightarrow> ClaudeRequest \<Rightarrow> RequestContent" where
  "ConvertClaudeRequestToAntigravityV2 sigCache unmarshalString modelName req =
     (case processMessages sigCache unmarshalString modelName (r_Messages req) True of
        (contents, enable) \<Rightarrow>
          \<lparr>rc_Contents = contents, rc_GenerationConfig = generationConfigV2 enable req\<rparr>)"

subsection \<open>The gjson-based translator (antigravity\_claude\_request\_optimized.go)\<close>

text \<open>The \<^verbatim>\<open>thinking\<close> directive as the gjson translator reads it: present when the key
  exists and is an object, the budget present when \<^verbatim>\<open>budget_tokens\<close> exists and is a
  number. This translator has no adaptive mapping and always includes thoughts.\<close>

definition thinkingConfigOptimized :: "bool \<Rightarrow> ClaudeThinking option \<Rightarrow> ThinkingConfig option" where
  "thinkingConfigOptimized enable thinkingResult =
     (case thinkingResult of
        None \<Rightarrow> None
      | Some t \<Rightarrow>
          (if enable \<and> th_Type t = ''enabled'' then
             (case th_BudgetTokens t of
                None \<Rightarrow> None
              | Some budget \<Rightarrow>
                  Some \<lparr>tc_ThinkingBudget = Some budget, tc_IncludeThoughts = True,
                        tc_ThinkingLevel = []\<rparr>)
           else None))"

text \<open>\<^verbatim>\<open>processToolUseContent\<close>: \<open>gjsonParseObject s\<close> is the raw object that
  \<^verbatim>\<open>gjson.Parse(s)\<close> finds in a string-encoded input, if it finds one.\<close>

definition processToolUseContent ::
  "SignatureCache \<Rightarrow> (string \<Rightarrow> json option) \<Rightarrow> ClaudeContentItem \<Rightarrow> string \<Rightarrow> string \<Rightarrow> Part option" where
  "processToolUseContent sigCache gjsonParseObject ci modelName currentSignature =
     (let argsRaw =
        (case ci_Input ci of
           Some (JObj kvs) \<Rightarrow> Some (JObj kvs)
         | Some (JStr s) \<Rightarrow> gjsonParseObject s
         | _ \<Rightarrow> None);
          thoughtSig =
            (if HasValidSignature sigCache modelName currentSignature
             then currentSignature
             else ''skip_thought_signature_validator'')
      in case argsRaw of
           None \<Rightarrow> None
         | Some a \<Rightarrow>
             Some (emptyPart\<lparr>p_ThoughtSignature := thoughtSig,
                p_FunctionCall := Some \<lparr>fc_ID = ci_ID ci, fc_Name = ci_Name ci, fc_Args = a\<rparr>\<rparr>))"

fun toolResultResponse :: "json option \<Rightarrow> (string \<times> json) list" where
  "toolResultResponse None = [(''result'', JNull)]"
| "toolResultResponse (Some (JArr [x])) = [(''result'', x)]"
| "toolResultResponse (Some v) = [(''result'', v)]"

definition processToolResultContent :: "ClaudeContentItem \<Rightarrow> Part option" where
  "processToolResultContent ci =
     (if ci_ToolUseID ci = [] then None
      else Some (emptyPart\<lparr>p_FunctionResponse :=
             Some \<lparr>fr_ID = ci_ToolUseID ci, fr_Name = toolResultFuncName (ci_ToolUseID ci),
                   fr_Response = toolResultResponse (ci_Content ci)\<rparr>\<rparr>))"

section \<open>The schema cleaner (gemini\_schema\_optimized.go)\<close>

subsection \<open>The rewriting of one object node\<close>

type_synonym object = "(string \<times> json) list"

text \<open>A failed type assertion without the comma-ok form panics.\<close>

datatype error = Panic

text \<open>\<^verbatim>\<open>s, _ := x.(string)\<close>: the string, or the empty string when the key is absent or
  holds another kind of value.\<close>

definition stringOf :: "json option \<Rightarrow> string" where
  "stringOf x = (case x of Some (JStr s) \<Rightarrow> s | _ \<Rightarrow> [])"

fun stringsOf :: "json list \<Rightarrow> string list" where
  "stringsOf [] = []"
| "stringsOf (JStr s # xs) = s # stringsOf xs"
| "stringsOf (x # xs) = stringsOf xs"

definition stringSliceContains :: "string list \<Rightarrow> string \<Rightarrow> bool" where
  "stringSliceContains slice item \<longleftrightarrow> item \<in> set slice"

text \<open>\<^verbatim>\<open>fmt.Sprint(v)\<close> and the \<^verbatim>\<open>%v\<close> verb on a decoded JSON value; a map prints its
  keys in sorted order.\<close>

function fmtSprint :: "json \<Rightarrow> string" where
  "fmtSprint JNull = ''<nil>''"
| "fmtSprint (JBool b) = (if b then ''true'' else ''false'')"
| "fmtSprint (JNum n) = n"
| "fmtSprint (JStr s) = s"
| "fmtSprint (JArr xs) = ''['' @ Join (map fmtSprint xs) '' '' @ '']''"
| "fmtSprint (JObj kvs) =
     ''map['' @ Join (map (\<lambda>kv. fst kv @ '':'' @ snd kv)
                        (sort_key fst (map (\<lambda>kv. (fst kv, fmtSprint (snd kv))) kvs))) '' '' @ '']''"
  by pat_completeness auto
termination
proof (relation "measure size")
  fix kvs :: "(string \<times> json) list" and kv
  assume "kv \<in> set kvs"
  then show "(snd kv, JObj kvs) \<in> measure size"
    by (induction kvs) (auto simp: less_Suc_eq_le)
next
  fix xs :: "json list" and x
  assume "x \<in> set xs"
  then show "(x, JArr xs) \<in> measure size"
    by (induction xs) auto
qed simp

definition appendHintToNode :: "object \<Rightarrow> string \<Rightarrow> object" where
  "appendHintToNode node hint =
     (let existing = stringOf (map_of node ''description'')
      in if existing \<noteq> [] then AList.update ''description'' (JStr (existing @ '' ('' @ hint @ '')'')) node
         else AList.update ''description'' (JStr hint) node)"

definition buildPath :: "string \<Rightarrow> string \<Rightarrow> string" where
  "buildPath parent key = (if parent = [] then key else parent @ ''.'' @ key)"

record cleanContext =
  nullableFields :: "(string \<times> string list) list"

text \<open>Step 1 of \<^verbatim>\<open>processObjectNode\<close>: a node whose \<^verbatim>\<open>$ref\<close> is a string is replaced;
  \<open>defName\<close> is the text after the last slash.\<close>

definition handleRef :: "object \<Rightarrow> object option" where
  "handleRef node =
     (case map_of node ''$ref'' of
        Some (JStr refVal) \<Rightarrow>
          (let defName = rev (takeWhile (\<lambda>c. c \<noteq> CHR ''/'') (rev refVal));
               existing = stringOf (map_of node ''description'');
               hint = (if existing \<noteq> [] then existing @ '' ('' @ (''See: '' @ defName) @ '')''
                       else ''See: '' @ defName)
           in Some [(''type'', JStr ''object''), (''description'', JStr hint)])
      | _ \<Rightarrow> None)"

text \<open>Step 2: \<^verbatim>\<open>const\<close> becomes a one-element \<^verbatim>\<open>enum\<close>.\<close>

definition constToEnum :: "object \<Rightarrow> object" where
  "constToEnum node =
     (case map_of node ''const'' of
        None \<Rightarrow> node
      | Some constVal \<Rightarrow>
          AList.delete ''const''
            (if map_of node ''enum'' = None then AList.update ''enum'' (JArr [constVal]) node else node))"

text \<open>Step 3: enum values become strings, with a hint for 2 to 10 values.\<close>

definition enumToStrings :: "object \<Rightarrow> object" where
  "enumToStrings node =
     (case map_of node ''enum'' of
        Some (JArr enumVal) \<Rightarrow>
          (let stringEnum = map fmtSprint enumVal;
               node1 = AList.update ''enum'' (JArr (map JStr stringEnum)) node
           in if length stringEnum > 1 \<and> length stringEnum \<le> 10
              then appendHintToNode node1 (''Allowed: '' @ Join stringEnum '', '')
              else node1)
      | _ \<Rightarrow> node)"

text \<open>Step 4.\<close>

definition handleAdditionalProperties :: "object \<Rightarrow> object" where
  "handleAdditionalProperties node =
     (case map_of node ''additionalProperties'' of
        None \<Rightarrow> node
      | Some addProps \<Rightarrow>
          AList.delete ''additionalProperties''
            (if addProps = JBool False then appendHintToNode node ''No extra properties allowed''
             else node))"

text \<open>Step 5: scalar-valued unsupported constraints move into the description.\<close>

definition unsupportedKeys :: "string list" where
  "unsupportedKeys = [''minLength'', ''maxLength'', ''exclusiveMinimum'', ''exclusiveMaximum'',
     ''pattern'', ''minItems'', ''maxItems'', ''format'', ''default'', ''examples'']"

definition moveConstraint :: "object \<Rightarrow> string \<Rightarrow> object" where
  "moveConstraint node key =
     (case map_of node key of
        None \<Rightarrow> node
      | Some (JObj m) \<Rightarrow> node
      | Some (JArr a) \<Rightarrow> node
      | Some val \<Rightarrow> AList.delete key (appendHintToNode node (key @ '': '' @ fmtSprint val)))"

definition moveUnsupported :: "object \<Rightarrow> object" where
  "moveUnsupported node = foldl moveConstraint node unsupportedKeys"

text \<open>Step 6, \<^verbatim>\<open>mergeAllOfInPlace\<close>. The assertion
  \<^verbatim>\<open>parent["properties"].(map[string]interface{})\<close> panics when the key holds anything but
  an object.\<close>

definition mergeAllOfItem :: "object \<times> string list \<Rightarrow> json \<Rightarrow> object \<times> string list" where
  "mergeAllOfItem acc item =
     (case acc of (props, allRequired) \<Rightarrow>
        (case item of
           JObj itemObj \<Rightarrow>
             (let props' = (case map_of itemObj ''properties'' of
                              Some (JObj itemProps) \<Rightarrow> foldl (\<lambda>ps kv. AList.update (fst kv) (snd kv) ps) props itemProps
                            | _ \<Rightarrow> props);
                  allRequired' = (case map_of itemObj ''required'' of
                              Some (JArr itemReq) \<Rightarrow>
                                foldl (\<lambda>req r. if stringSliceContains req r then req else req @ [r])
                                  allRequired (stringsOf itemReq)
                            | _ \<Rightarrow> allRequired)
              in (props', allRequired'))
         | _ \<Rightarrow> acc))"

definition mergeAllOfInPlace :: "object \<Rightarrow> json list \<Rightarrow> error + object" where
  "mergeAllOfInPlace parent allOf =
     (let parent1 = (if map_of parent ''properties'' = None then AList.update ''properties'' (JObj []) parent
                     else parent)
      in case map_of parent1 ''properties'' of
           Some (JObj props) \<Rightarrow>
             (let allRequired0 = (case map_of parent1 ''required'' of
                                    Some (JArr reqArr) \<Rightarrow> stringsOf reqArr
                                  | _ \<Rightarrow> [])
              in case foldl mergeAllOfItem (props, allRequired0) allOf of
                   (props', allRequired) \<Rightarrow>
                     (let parent2 = AList.update ''properties'' (JObj props') parent1
                      in Inr (if allRequired \<noteq> []
                              then AList.update ''required'' (JArr (map JStr allRequired)) parent2
                              else parent2)))
         | _ \<Rightarrow> Inl Panic)"

definition handleAllOf :: "object \<Rightarrow> error + object" where
  "handleAllOf node =
     (case map_of node ''allOf'' of
        Some (JArr allOf) \<Rightarrow>
          (case mergeAllOfInPlace node allOf of
             Inl e \<Rightarrow> Inl e
           | Inr node' \<Rightarrow> Inr (AList.delete ''allOf'' node'))
      | _ \<Rightarrow> Inr node)"

text \<open>Step 7, \<^verbatim>\<open>selectBestSchema\<close> and \<^verbatim>\<open>flattenUnionInPlace\<close>. A key whose value is
  \<^verbatim>\<open>null\<close> compares equal to \<^verbatim>\<open>nil\<close>, like an absent key.\<close>

definition nonNil :: "json option \<Rightarrow> bool" where
  "nonNil x \<longleftrightarrow> x \<noteq> None \<and> x \<noteq> Some JNull"

definition scoreSchema :: "object \<Rightarrow> int \<times> string" where
  "scoreSchema itemObj =
     (let t = stringOf (map_of itemObj ''type'')
      in if t = ''object'' \<or> nonNil (map_of itemObj ''properties'') then (3, if t = [] then ''object'' else t)
         else if t = ''array'' \<or> nonNil (map_of itemObj ''items'') then (2, if t = [] then ''array'' else t)
         else if t \<noteq> [] \<and> t \<noteq> ''null'' then (1, t)
         else (0, if t = [] then ''null'' else t))"

fun selectBestLoop :: "json list \<Rightarrow> nat \<Rightarrow> int \<times> nat \<times> string list \<Rightarrow> int \<times> nat \<times> string list" where
  "selectBestLoop [] i st = st"
| "selectBestLoop (item # items) i (bestScore, bestIdx, types) =
     (case item of
        JObj itemObj \<Rightarrow>
          (case scoreSchema itemObj of
             (score, t) \<Rightarrow>
               (let types' = (if t \<noteq> [] \<and> \<not> stringSliceContains types t then types @ [t] else types)
                in selectBestLoop items (Suc i)
                     (if score > bestScore then (score, i, types') else (bestScore, bestIdx, types'))))
      | _ \<Rightarrow> selectBestLoop items (Suc i) (bestScore, bestIdx, types))"

definition selectBestSchema :: "json list \<Rightarrow> nat \<times> string list" where
  "selectBestSchema items = (case selectBestLoop items 0 (- 1, 0, []) of (s, bestIdx, types) \<Rightarrow> (bestIdx, types))"

definition mergeBestKey :: "string \<Rightarrow> object \<Rightarrow> string \<times> json \<Rightarrow> object" where
  "mergeBestKey parentDesc parent kv =
     (if fst kv = ''description'' then
        (case snd kv of
           JStr childDesc \<Rightarrow>
             (if parentDesc \<noteq> [] \<and> childDesc \<noteq> [] \<and> childDesc \<noteq> parentDesc
              then AList.update ''description'' (JStr (parentDesc @ '' ('' @ childDesc @ '')'')) parent
              else if childDesc \<noteq> [] then AList.update ''description'' (JStr childDesc) parent
              else parent)
         | _ \<Rightarrow> parent)
      else AList.update (fst kv) (snd kv) parent)"

definition flattenUnionInPlace :: "object \<Rightarrow> json list \<Rightarrow> object" where
  "flattenUnionInPlace parent arr =
     (if arr = [] then parent
      else
        (let parentDesc = stringOf (map_of parent ''description'')
         in case selectBestSchema arr of
              (bestIdx0, allTypes) \<Rightarrow>
                (let bestIdx = (if bestIdx0 \<ge> length arr then 0 else bestIdx0)
                 in case arr ! bestIdx of
                      JObj best \<Rightarrow>
                        (let parent1 = foldl (mergeBestKey parentDesc) parent best
                         in if length allTypes > 1
                            then appendHintToNode parent1 (''Accepts: '' @ Join allTypes '' | '')
                            else parent1)
                    | _ \<Rightarrow> parent)))"

definition handleUnion :: "object \<Rightarrow> string \<Rightarrow> object" where
  "handleUnion node key =
     (case map_of node key of
        Some (JArr arr) \<Rightarrow> (if arr \<noteq> [] then AList.delete key (flattenUnionInPlace node arr) else node)
      | _ \<Rightarrow> node)"

text \<open>Step 8, \<^verbatim>\<open>handleTypeArrayInPlace\<close>. The loop over the path segments stops at the
  first segment \<^verbatim>\<open>properties\<close> that has a successor.\<close>

fun firstProperties :: "string list \<Rightarrow> string list \<Rightarrow> (string list \<times> string) option" where
  "firstProperties pre (p # q # rest) =
     (if p = ''properties'' then Some (pre, q) else firstProperties (pre @ [p]) (q # rest))"
| "firstProperties pre rest = None"

definition recordNullable :: "string \<Rightarrow> cleanContext \<Rightarrow> cleanContext" where
  "recordNullable path ctx =
     (case firstProperties [] (Split path CHR ''.'') of
        None \<Rightarrow> ctx
      | Some (pre, fieldName) \<Rightarrow>
          (let objectPath = Join pre ''.'';
               fieldNames = (case map_of (nullableFields ctx) objectPath of None \<Rightarrow> [] | Some fs \<Rightarrow> fs)
           in ctx\<lparr>nullableFields := AList.update objectPath (fieldNames @ [fieldName]) (nullableFields ctx)\<rparr>))"

definition handleTypeArrayInPlace ::
  "object \<Rightarrow> json list \<Rightarrow> string \<Rightarrow> cleanContext \<Rightarrow> object \<times> cleanContext" where
  "handleTypeArrayInPlace node typeArr path ctx =
     (let hasNull = (''null'' \<in> set (stringsOf typeArr));
          nonNullTypes = filter (\<lambda>t. t \<noteq> ''null'' \<and> t \<noteq> []) (stringsOf typeArr);
          firstType = (case nonNullTypes of [] \<Rightarrow> ''string'' | t # ts \<Rightarrow> t);
          node1 = AList.update ''type'' (JStr firstType) node;
          node2 = (if length nonNullTypes > 1
                   then appendHintToNode node1 (''Accepts: '' @ Join nonNullTypes '' | '')
                   else node1)
      in if hasNull \<and> Contains path ''.properties.''
         then (appendHintToNode node2 ''(nullable)'', recordNullable path ctx)
         else (node2, ctx))"

text \<open>Step 9, \<^verbatim>\<open>handleEmptyObjectSchema\<close>.\<close>

definition handleEmptyObjectSchema :: "object \<Rightarrow> string \<Rightarrow> object" where
  "handleEmptyObjectSchema node path =
     (let reason = JObj [(''type'', JStr ''string''),
                         (''description'', JStr ''Brief explanation of why you are calling this tool'')]
      in case map_of node ''properties'' of
           Some (JObj props) \<Rightarrow>
             (if props = [] then
                AList.update ''required'' (JArr [JStr ''reason''])
                  (AList.update ''properties'' (JObj (AList.update ''reason'' reason props)) node)
              else
                (let hasRequired = (case map_of node ''required'' of
                                      Some (JArr req) \<Rightarrow> req \<noteq> []
                                    | _ \<Rightarrow> False)
                 in if \<not> hasRequired \<and> path \<noteq> [] then
                      AList.update ''required'' (JArr [JStr ''_''])
                        (if map_of props ''_'' = None
                         then AList.update ''properties''
                                (JObj (AList.update ''_'' (JObj [(''type'', JStr ''boolean'')]) props)) node
                         else node)
                    else node))
         | _ \<Rightarrow>
             AList.update ''required'' (JArr [JStr ''reason''])
               (AList.update ''properties'' (JObj [(''reason'', reason)]) node))"

text \<open>Step 10, \<^verbatim>\<open>cleanupRequiredInPlace\<close>.\<close>

definition validRequired :: "object \<Rightarrow> json \<Rightarrow> bool" where
  "validRequired props r = (case r of JStr rStr \<Rightarrow> map_of props rStr \<noteq> None | _ \<Rightarrow> False)"

definition cleanupRequiredInPlace :: "object \<Rightarrow> object" where
  "cleanupRequiredInPlace node =
     (case map_of node ''required'' of
        Some (JArr reqArr) \<Rightarrow>
          (case map_of node ''properties'' of
             Some (JObj props) \<Rightarrow>
               (let valid = filter (validRequired props) reqArr
                in if length valid \<noteq> length reqArr then
                     (if valid = [] then AList.delete ''required'' node
                      else AList.update ''required'' (JArr valid) node)
                   else node)
           | _ \<Rightarrow> node)
      | _ \<Rightarrow> node)"

text \<open>Step 11.\<close>

definition removeKeys :: "string list" where
  "removeKeys = [''$schema'', ''$defs'', ''definitions'', ''$ref'', ''$id'', ''propertyNames'',
     ''patternProperties'', ''enumTitles'', ''prefill'']"

definition removeUnsupportedKeywords :: "object \<Rightarrow> object" where
  "removeUnsupportedKeywords node = foldl (\<lambda>n key. AList.delete key n) node removeKeys"

text \<open>The guards of steps 8 and 9 in \<^verbatim>\<open>processObjectNode\<close>.\<close>

definition flattenTypeArray :: "object \<Rightarrow> string \<Rightarrow> cleanContext \<Rightarrow> object \<times> cleanContext" where
  "flattenTypeArray node path ctx =
     (case map_of node ''type'' of
        Some (JArr typeVal) \<Rightarrow>
          (if typeVal \<noteq> [] then handleTypeArrayInPlace node typeVal path ctx else (node, ctx))
      | _ \<Rightarrow> (node, ctx))"

definition addPlaceholder :: "object \<Rightarrow> string \<Rightarrow> object" where
  "addPlaceholder node path =
     (if map_of node ''type'' = Some (JStr ''object'') then handleEmptyObjectSchema node path else node)"

definition processObjectNode :: "object \<Rightarrow> string \<Rightarrow> cleanContext \<Rightarrow> error + object \<times> cleanContext" where
  "processObjectNode node path ctx =
     (case handleRef node of
        Some replaced \<Rightarrow> Inr (replaced, ctx)
      | None \<Rightarrow>
          (case handleAllOf (moveUnsupported (handleAdditionalProperties (enumToStrings (constToEnum node)))) of
             Inl e \<Rightarrow> Inl e
           | Inr node6 \<Rightarrow>
               (case flattenTypeArray (handleUnion (handleUnion node6 ''anyOf'') ''oneOf'') path ctx of
                  (node8, ctx') \<Rightarrow>
                    Inr (removeUnsupportedKeywords (cleanupRequiredInPlace (addPlaceholder node8 path)),
                         ctx'))))"

definition emptyContext :: cleanContext where
  "emptyContext = \<lparr>nullableFields = []\<rparr>"

text \<open>Decimal digits of an array index, for \<^verbatim>\<open>fmt.Sprintf("%s[%d]", path, i)\<close>.\<close>

fun itoa :: "nat \<Rightarrow> string" where
  "itoa n = (if n < 10 then [''0123456789'' ! n] else itoa (n div 10) @ [''0123456789'' ! (n mod 10)])"

subsection \<open>Termination of the traversal\<close>

text \<open>A measure for the traversal. Every value that \<^verbatim>\<open>processObjectNode\<close> leaves in a
  node is lower than the node was: it is a part of the old node, or one of the fixed
  placeholders, which are lower than any node typed \<^verbatim>\<open>object\<close>.\<close>

definition keyWeight :: "string \<Rightarrow> nat" where
  "keyWeight k = (if k = ''$ref'' then 3 else if k = ''const'' then 1 else 0)"

definition maxList :: "nat list \<Rightarrow> nat" where
  "maxList ns = foldr max ns 0"

function height :: "json \<Rightarrow> nat" where
  "height JNull = 0"
| "height (JBool b) = 0"
| "height (JNum n) = (if n = ''object'' then 3 else 0)"
| "height (JStr s) = (if s = ''object'' then 3 else 0)"
| "height (JArr xs) = Suc (maxList (map height xs))"
| "height (JObj kvs) = Suc (maxList (map (\<lambda>kv. keyWeight (fst kv) + height (snd kv)) kvs))"
  by pat_completeness auto
termination
proof (relation "measure size")
  fix kvs :: "(string \<times> json) list" and kv
  assume "kv \<in> set kvs"
  then show "(snd kv, JObj kvs) \<in> measure size"
    by (induction kvs) (auto simp: less_Suc_eq_le)
next
  fix xs :: "json list" and x
  assume "x \<in> set xs"
  then show "(x, JArr xs) \<in> measure size"
    by (induction xs) auto
qed simp

definition valsLe :: "nat \<Rightarrow> object \<Rightarrow> bool" where
  "valsLe b node \<longleftrightarrow> (\<forall>kv \<in> set node. height (snd kv) \<le> b)"

definition pairsMax :: "object \<Rightarrow> nat" where
  "pairsMax node = maxList (map (\<lambda>kv. keyWeight (fst kv) + height (snd kv)) node)"

definition valsMax :: "object \<Rightarrow> nat" where
  "valsMax node = maxList (map (\<lambda>kv. height (snd kv)) node)"

lemma maxList_le: "maxList ns \<le> b \<longleftrightarrow> (\<forall>n \<in> set ns. n \<le> b)"
  by (induction ns) (auto simp: maxList_def)

lemma maxList_ge: "n \<in> set ns \<Longrightarrow> n \<le> maxList ns"
  using maxList_le [of ns "maxList ns"] by simp

lemma height_JArr_le: "height (JArr xs) \<le> b \<longleftrightarrow> 0 < b \<and> (\<forall>x \<in> set xs. height x < b)"
  by (cases b) (auto simp: maxList_le less_Suc_eq_le)

lemma height_JObj_le:
  "height (JObj kvs) \<le> b \<longleftrightarrow> 0 < b \<and> (\<forall>kv \<in> set kvs. keyWeight (fst kv) + height (snd kv) < b)"
  by (cases b) (auto simp: maxList_le less_Suc_eq_le)

lemma set_update_subset: "set (AList.update k v al) \<subseteq> insert (k, v) (set al)"
  by (induction al) auto

lemma set_delete_subset: "set (AList.delete k al) \<subseteq> set al"
  by (induction al) auto

lemma valsLe_update: "valsLe b node \<Longrightarrow> height v \<le> b \<Longrightarrow> valsLe b (AList.update k v node)"
  using set_update_subset [of k v node] by (auto simp: valsLe_def)

lemma valsLe_delete: "valsLe b node \<Longrightarrow> valsLe b (AList.delete k node)"
  using set_delete_subset [of k node] by (auto simp: valsLe_def)

lemma valsLe_lookup: "valsLe b node \<Longrightarrow> map_of node k = Some v \<Longrightarrow> height v \<le> b"
  by (auto simp: valsLe_def dest!: map_of_SomeD)

lemma hint_paren_ne: "a @ '' ('' @ h @ '')'' \<noteq> ''object''"
proof
  assume "a @ '' ('' @ h @ '')'' = ''object''"
  then have "last (a @ '' ('' @ h @ '')'') = last ''object''" by simp
  then show False by simp
qed

lemma valsLe_appendHint:
  "valsLe b node \<Longrightarrow> hint \<noteq> ''object'' \<Longrightarrow> valsLe b (appendHintToNode node hint)"
  by (auto simp: appendHintToNode_def Let_def hint_paren_ne intro!: valsLe_update)

lemma height_fmtSprint: "height (JStr (fmtSprint x)) \<le> height x"
  by (cases x) auto

lemma stringsOf_set: "s \<in> set (stringsOf xs) \<Longrightarrow> JStr s \<in> set xs"
  by (induction xs rule: stringsOf.induct) auto

lemma valsLe_constToEnum:
  assumes "\<forall>kv \<in> set node. keyWeight (fst kv) + height (snd kv) \<le> b"
  shows "valsLe b (constToEnum node)"
proof -
  have v: "valsLe b node" using assms by (auto simp: valsLe_def)
  show ?thesis
  proof (cases "map_of node ''const''")
    case None
    then show ?thesis using v by (simp add: constToEnum_def)
  next
    case (Some c)
    then have "(''const'', c) \<in> set node" by (rule map_of_SomeD)
    then have "keyWeight ''const'' + height c \<le> b" using assms by fastforce
    then have h: "height (JArr [c]) \<le> b" by (simp add: maxList_def keyWeight_def)
    have "valsLe b (AList.delete ''const'' (AList.update ''enum'' (JArr [c]) node))"
      by (intro valsLe_delete valsLe_update v h)
    moreover have "valsLe b (AList.delete ''const'' node)"
      by (intro valsLe_delete v)
    ultimately show ?thesis using Some by (simp add: constToEnum_def del: height.simps)
  qed
qed

lemma height_enum_strings:
  assumes "height (JArr xs) \<le> b"
  shows "height (JArr (map JStr (map fmtSprint xs))) \<le> b"
proof -
  have "height (JStr (fmtSprint x)) < b" if "x \<in> set xs" for x
    using assms that height_fmtSprint [of x] by (auto simp: height_JArr_le simp del: height.simps)
  then show ?thesis using assms by (auto simp: height_JArr_le simp del: height.simps)
qed

lemma enumToStrings_unfold:
  "enumToStrings node =
     (case map_of node ''enum'' of
        Some (JArr enumVal) \<Rightarrow>
          (if length enumVal > 1 \<and> length enumVal \<le> 10
           then appendHintToNode (AList.update ''enum'' (JArr (map JStr (map fmtSprint enumVal))) node)
                  (''Allowed: '' @ Join (map fmtSprint enumVal) '', '')
           else AList.update ''enum'' (JArr (map JStr (map fmtSprint enumVal))) node)
      | _ \<Rightarrow> node)"
  by (simp add: enumToStrings_def Let_def split: option.splits json.splits)

lemma valsLe_enumToStrings: "valsLe b node \<Longrightarrow> valsLe b (enumToStrings node)"
proof -
  assume v: "valsLe b node"
  show ?thesis
  proof (cases "map_of node ''enum''")
    case None
    then show ?thesis using v by (simp add: enumToStrings_unfold)
  next
    case (Some e)
    show ?thesis
    proof (cases e)
      case (JArr xs)
      with Some have xs: "map_of node ''enum'' = Some (JArr xs)" by simp
      have "height (JArr xs) \<le> b" using v xs by (rule valsLe_lookup)
      then have "height (JArr (map JStr (map fmtSprint xs))) \<le> b" by (rule height_enum_strings)
      then have 1: "valsLe b (AList.update ''enum'' (JArr (map JStr (map fmtSprint xs))) node)"
        by (rule valsLe_update [OF v])
      have ne: "''Allowed: '' @ Join (map fmtSprint xs) '', '' \<noteq> ''object''" by simp
      have 2: "valsLe b (appendHintToNode (AList.update ''enum'' (JArr (map JStr (map fmtSprint xs))) node)
                   (''Allowed: '' @ Join (map fmtSprint xs) '', ''))"
        using 1 ne by (rule valsLe_appendHint)
      have "enumToStrings node =
          (if length xs > 1 \<and> length xs \<le> 10
           then appendHintToNode (AList.update ''enum'' (JArr (map JStr (map fmtSprint xs))) node)
                  (''Allowed: '' @ Join (map fmtSprint xs) '', '')
           else AList.update ''enum'' (JArr (map JStr (map fmtSprint xs))) node)"
        unfolding enumToStrings_unfold xs by simp
      then show ?thesis using 1 2 by (simp del: height.simps fmtSprint.simps)
    qed (use Some v in \<open>simp_all add: enumToStrings_unfold\<close>)
  qed
qed

lemma valsLe_handleAdditionalProperties: "valsLe b node \<Longrightarrow> valsLe b (handleAdditionalProperties node)"
proof -
  assume v: "valsLe b node"
  have "valsLe b (AList.delete ''additionalProperties'' (appendHintToNode node ''No extra properties allowed''))"
    by (intro valsLe_delete valsLe_appendHint v) simp
  moreover have "valsLe b (AList.delete ''additionalProperties'' node)"
    by (intro valsLe_delete v)
  ultimately show ?thesis using v
    by (simp add: handleAdditionalProperties_def split: option.splits)
qed

lemma colon_ne: "key @ '': '' @ x \<noteq> ''object''"
proof
  assume eq: "key @ '': '' @ x = ''object''"
  have "CHR '':'' \<in> set (key @ '': '' @ x)" by simp
  then have "CHR '':'' \<in> set ''object''" unfolding eq .
  then show False by simp
qed

lemma valsLe_moveConstraint: "valsLe b node \<Longrightarrow> valsLe b (moveConstraint node key)"
proof -
  assume v: "valsLe b node"
  have "valsLe b (AList.delete key (appendHintToNode node (key @ '': '' @ fmtSprint val)))" for val
    by (intro valsLe_delete valsLe_appendHint v colon_ne)
  then show ?thesis using v
    by (simp add: moveConstraint_def del: fmtSprint.simps split: option.splits json.splits)
qed

lemma foldl_preserves:
  assumes "\<And>n x. P n \<Longrightarrow> P (f n x)" and "P n0"
  shows "P (foldl f n0 xs)"
  using assms(2) by (induction xs arbitrary: n0) (auto intro: assms(1))

lemma valsLe_moveUnsupported: "valsLe b node \<Longrightarrow> valsLe b (moveUnsupported node)"
  unfolding moveUnsupported_def by (rule foldl_preserves) (rule valsLe_moveConstraint)

lemma lookup_child_lt: "map_of obj k = Some v \<Longrightarrow> keyWeight k + height v < height (JObj obj)"
proof -
  assume "map_of obj k = Some v"
  then have "(k, v) \<in> set obj" by (rule map_of_SomeD)
  moreover have "height (JObj obj) \<le> height (JObj obj)" by simp
  ultimately show ?thesis unfolding height_JObj_le by fastforce
qed

lemma member_child_lt: "kv \<in> set obj \<Longrightarrow> keyWeight (fst kv) + height (snd kv) < height (JObj obj)"
proof -
  assume "kv \<in> set obj"
  moreover have "height (JObj obj) \<le> height (JObj obj)" by simp
  ultimately show ?thesis unfolding height_JObj_le by fastforce
qed

lemma elem_lt: "x \<in> set xs \<Longrightarrow> height x < height (JArr xs)"
proof -
  assume "x \<in> set xs"
  moreover have "height (JArr xs) \<le> height (JArr xs)" by simp
  ultimately show ?thesis unfolding height_JArr_le by fastforce
qed

lemma pairs_foldl_update:
  assumes "\<forall>kv \<in> set props. keyWeight (fst kv) + height (snd kv) < b"
    and "\<forall>kv \<in> set kvs. keyWeight (fst kv) + height (snd kv) < b"
  shows "\<forall>kv \<in> set (foldl (\<lambda>ps kv. AList.update (fst kv) (snd kv) ps) props kvs).
           keyWeight (fst kv) + height (snd kv) < b"
  using assms
proof (induction kvs arbitrary: props)
  case Nil
  then show ?case by simp
next
  case (Cons a kvs)
  have "\<forall>kv \<in> set (AList.update (fst a) (snd a) props). keyWeight (fst kv) + height (snd kv) < b"
    using Cons.prems set_update_subset [of "fst a" "snd a" props] by fastforce
  then show ?case using Cons.IH Cons.prems(2) by simp
qed

lemma strings_foldl_append:
  assumes "\<forall>s \<in> set req. height (JStr s) < b" and "\<forall>s \<in> set ss. height (JStr s) < b"
  shows "\<forall>s \<in> set (foldl (\<lambda>req r. if stringSliceContains req r then req else req @ [r]) req ss).
           height (JStr s) < b"
  using assms
proof (induction ss arbitrary: req)
  case Nil
  then show ?case by simp
next
  case (Cons a ss)
  have "\<forall>s \<in> set (if stringSliceContains req a then req else req @ [a]). height (JStr s) < b"
    using Cons.prems by (simp del: height.simps)
  then show ?case using Cons.IH Cons.prems(2) by (simp del: height.simps)
qed

lemma strings_lt: "height (JArr xs) \<le> b \<Longrightarrow> \<forall>s \<in> set (stringsOf xs). height (JStr s) < b"
  using stringsOf_set elem_lt by (meson le_less_trans less_le_trans not_le)

lemma mergeAllOfItem_inv:
  assumes item: "height item < b"
    and p: "\<forall>kv \<in> set props. keyWeight (fst kv) + height (snd kv) < b"
    and r: "\<forall>s \<in> set req. height (JStr s) < b"
    and res: "mergeAllOfItem (props, req) item = (props', req')"
  shows "(\<forall>kv \<in> set props'. keyWeight (fst kv) + height (snd kv) < b)
       \<and> (\<forall>s \<in> set req'. height (JStr s) < b)"
proof (cases item)
  case (JObj itemObj)
  have p': "\<forall>kv \<in> set (foldl (\<lambda>ps kv. AList.update (fst kv) (snd kv) ps) props itemProps).
              keyWeight (fst kv) + height (snd kv) < b"
    if "map_of itemObj ''properties'' = Some (JObj itemProps)" for itemProps
  proof -
    have "height (JObj itemProps) < height (JObj itemObj)"
      using lookup_child_lt [OF that] by simp
    then have "height (JObj itemProps) < b" using item JObj by simp
    then have "\<forall>kv \<in> set itemProps. keyWeight (fst kv) + height (snd kv) < b"
      using member_child_lt [of _ itemProps] by fastforce
    with p show ?thesis by (rule pairs_foldl_update)
  qed
  have r': "\<forall>s \<in> set (foldl (\<lambda>req r. if stringSliceContains req r then req else req @ [r]) req (stringsOf itemReq)).
              height (JStr s) < b"
    if "map_of itemObj ''required'' = Some (JArr itemReq)" for itemReq
  proof -
    have "height (JArr itemReq) < height (JObj itemObj)"
      using lookup_child_lt [OF that] by simp
    then have "height (JArr itemReq) \<le> b" using item JObj by simp
    then have "\<forall>s \<in> set (stringsOf itemReq). height (JStr s) < b" by (rule strings_lt)
    with r show ?thesis by (rule strings_foldl_append)
  qed
  have 1: "\<forall>kv \<in> set props'. keyWeight (fst kv) + height (snd kv) < b"
  proof (cases "map_of itemObj ''properties''")
    case None
    then show ?thesis using res JObj p by (simp add: mergeAllOfItem_def Let_def)
  next
    case (Some a)
    then show ?thesis using res JObj p p'
      by (cases a) (simp_all add: mergeAllOfItem_def Let_def del: height.simps)
  qed
  have 2: "\<forall>s \<in> set req'. height (JStr s) < b"
  proof (cases "map_of itemObj ''required''")
    case None
    then show ?thesis using res JObj r by (simp add: mergeAllOfItem_def Let_def)
  next
    case (Some a)
    then show ?thesis using res JObj r r'
      by (cases a) (simp_all add: mergeAllOfItem_def Let_def del: height.simps)
  qed
  from 1 2 show ?thesis ..
qed (use res p r in \<open>simp_all add: mergeAllOfItem_def del: height.simps\<close>)

lemma mergeAllOf_foldl_inv:
  assumes "\<forall>item \<in> set allOf. height item < b"
    and "\<forall>kv \<in> set props. keyWeight (fst kv) + height (snd kv) < b"
    and "\<forall>s \<in> set req. height (JStr s) < b"
    and "foldl mergeAllOfItem (props, req) allOf = (props', req')"
  shows "(\<forall>kv \<in> set props'. keyWeight (fst kv) + height (snd kv) < b)
       \<and> (\<forall>s \<in> set req'. height (JStr s) < b)"
  using assms
proof (induction allOf arbitrary: props req)
  case Nil
  then show ?case by simp
next
  case (Cons item allOf)
  obtain p1 r1 where s: "mergeAllOfItem (props, req) item = (p1, r1)" by (cases "mergeAllOfItem (props, req) item")
  have "height item < b" using Cons.prems(1) by simp
  from mergeAllOfItem_inv [OF this Cons.prems(2) Cons.prems(3) s]
  have "(\<forall>kv \<in> set p1. keyWeight (fst kv) + height (snd kv) < b) \<and> (\<forall>s \<in> set r1. height (JStr s) < b)" .
  then show ?case using Cons.IH [of p1 r1] Cons.prems(1) Cons.prems(4) s by simp
qed

lemma valsLe_mergeAllOf:
  assumes v: "valsLe b parent" and a: "height (JArr allOf) \<le> b"
    and res: "mergeAllOfInPlace parent allOf = Inr parent'"
  shows "valsLe b parent'"
proof -
  define parent1 where "parent1 = (if map_of parent ''properties'' = None
      then AList.update ''properties'' (JObj []) parent else parent)"
  have b0: "0 < b" using a unfolding height_JArr_le by simp
  have items: "\<forall>item \<in> set allOf. height item < b" using a unfolding height_JArr_le by simp
  have v1: "valsLe b parent1"
    unfolding parent1_def using v b0 by (simp add: valsLe_update maxList_def)
  obtain props where props: "map_of parent1 ''properties'' = Some (JObj props)"
    using res unfolding mergeAllOfInPlace_def parent1_def [symmetric] Let_def
    by (auto split: option.splits json.splits)
  define req0 where "req0 = (case map_of parent1 ''required'' of Some (JArr reqArr) \<Rightarrow> stringsOf reqArr | _ \<Rightarrow> [])"
  obtain props' req' where f: "foldl mergeAllOfItem (props, req0) allOf = (props', req')"
    by (cases "foldl mergeAllOfItem (props, req0) allOf")
  have "height (JObj props) \<le> b" using v1 props by (rule valsLe_lookup)
  then have p: "\<forall>kv \<in> set props. keyWeight (fst kv) + height (snd kv) < b" unfolding height_JObj_le by simp
  have r: "\<forall>s \<in> set req0. height (JStr s) < b"
  proof (cases "\<exists>reqArr. map_of parent1 ''required'' = Some (JArr reqArr)")
    case True
    then obtain reqArr where ra: "map_of parent1 ''required'' = Some (JArr reqArr)" by blast
    have "height (JArr reqArr) \<le> b" using v1 ra by (rule valsLe_lookup)
    then show ?thesis unfolding req0_def ra using strings_lt by simp
  next
    case False
    then have "req0 = []" unfolding req0_def by (auto split: option.splits json.splits)
    then show ?thesis by simp
  qed
  from mergeAllOf_foldl_inv [OF items p r f]
  have p': "\<forall>kv \<in> set props'. keyWeight (fst kv) + height (snd kv) < b"
    and r': "\<forall>s \<in> set req'. height (JStr s) < b" by blast+
  have hp: "height (JObj props') \<le> b" using p' b0 unfolding height_JObj_le by simp
  have hr: "height (JArr (map JStr req')) \<le> b" using r' b0 unfolding height_JArr_le by (simp del: height.simps)
  have v2: "valsLe b (AList.update ''properties'' (JObj props') parent1)"
    using v1 hp by (rule valsLe_update)
  have v3: "valsLe b (AList.update ''required'' (JArr (map JStr req')) (AList.update ''properties'' (JObj props') parent1))"
    using v2 hr by (rule valsLe_update)
  have "parent' = (if req' \<noteq> [] then AList.update ''required'' (JArr (map JStr req')) (AList.update ''properties'' (JObj props') parent1)
                   else AList.update ''properties'' (JObj props') parent1)"
    using res props f unfolding mergeAllOfInPlace_def parent1_def [symmetric] Let_def req0_def [symmetric]
    by simp
  then show ?thesis using v2 v3 by simp
qed

lemma valsLe_handleAllOf:
  assumes v: "valsLe b node" and res: "handleAllOf node = Inr node'"
  shows "valsLe b node'"
proof (cases "\<exists>allOf. map_of node ''allOf'' = Some (JArr allOf)")
  case True
  then obtain allOf where a: "map_of node ''allOf'' = Some (JArr allOf)" by blast
  have h: "height (JArr allOf) \<le> b" using v a by (rule valsLe_lookup)
  obtain m where m: "mergeAllOfInPlace node allOf = Inr m" and n: "node' = AList.delete ''allOf'' m"
    using res a by (auto simp: handleAllOf_def split: sum.splits)
  have "valsLe b m" using v h m by (rule valsLe_mergeAllOf)
  then show ?thesis unfolding n by (rule valsLe_delete)
next
  case False
  then have "handleAllOf node = Inr node"
    by (auto simp: handleAllOf_def split: option.splits json.splits)
  then show ?thesis using v res by simp
qed

lemma valsLe_mergeBestKey:
  assumes v: "valsLe b parent" and h: "height (snd kv) \<le> b"
  shows "valsLe b (mergeBestKey parentDesc parent kv)"
proof (cases "fst kv = ''description''")
  case False
  then show ?thesis using v h by (simp add: mergeBestKey_def valsLe_update)
next
  case True
  show ?thesis
  proof (cases "snd kv")
    case (JStr childDesc)
    have 1: "valsLe b (AList.update ''description'' (JStr (parentDesc @ '' ('' @ childDesc @ '')'')) parent)"
      using v by (rule valsLe_update) (simp add: hint_paren_ne)
    have 2: "valsLe b (AList.update ''description'' (JStr childDesc) parent)"
      using v h JStr by (simp add: valsLe_update del: height.simps)
    show ?thesis using True JStr 1 2 v by (auto simp: mergeBestKey_def)
  qed (use True v in \<open>simp_all add: mergeBestKey_def\<close>)
qed

lemma valsLe_foldl_mergeBestKey:
  assumes "valsLe b parent" and "\<forall>kv \<in> set best. height (snd kv) \<le> b"
  shows "valsLe b (foldl (mergeBestKey parentDesc) parent best)"
  using assms
proof (induction best arbitrary: parent)
  case Nil
  then show ?case by simp
next
  case (Cons kv best)
  have "valsLe b (mergeBestKey parentDesc parent kv)"
    using Cons.prems by (intro valsLe_mergeBestKey) simp_all
  then show ?case using Cons.IH Cons.prems(2) by simp
qed

lemma valsLe_flattenUnion:
  assumes v: "valsLe b parent" and a: "height (JArr arr) \<le> b"
  shows "valsLe b (flattenUnionInPlace parent arr)"
proof (cases "arr = []")
  case True
  then show ?thesis using v by (simp add: flattenUnionInPlace_def)
next
  case False
  obtain bestIdx0 allTypes where sel: "selectBestSchema arr = (bestIdx0, allTypes)"
    by (cases "selectBestSchema arr")
  define bestIdx where "bestIdx = (if bestIdx0 \<ge> length arr then 0 else bestIdx0)"
  have "bestIdx < length arr" using False by (simp add: bestIdx_def)
  then have mem: "arr ! bestIdx \<in> set arr" by simp
  have lt: "height (arr ! bestIdx) < b" using a mem unfolding height_JArr_le by simp
  show ?thesis
  proof (cases "arr ! bestIdx")
    case (JObj best)
    have "\<forall>kv \<in> set best. height (snd kv) \<le> b"
    proof
      fix kv assume "kv \<in> set best"
      then have "keyWeight (fst kv) + height (snd kv) < height (JObj best)" by (rule member_child_lt)
      then show "height (snd kv) \<le> b" using lt JObj by simp
    qed
    with v have 1: "valsLe b (foldl (mergeBestKey (stringOf (map_of parent ''description''))) parent best)"
      by (rule valsLe_foldl_mergeBestKey)
    then have 2: "valsLe b (appendHintToNode (foldl (mergeBestKey (stringOf (map_of parent ''description''))) parent best)
                    (''Accepts: '' @ Join allTypes '' | ''))"
      by (rule valsLe_appendHint) simp
    show ?thesis using False sel JObj 1 2
      by (simp add: flattenUnionInPlace_def Let_def bestIdx_def [symmetric])
  qed (use False sel v in \<open>simp_all add: flattenUnionInPlace_def Let_def bestIdx_def [symmetric]\<close>)
qed

lemma valsLe_handleUnion: "valsLe b node \<Longrightarrow> valsLe b (handleUnion node key)"
proof -
  assume v: "valsLe b node"
  show ?thesis
  proof (cases "\<exists>arr. map_of node key = Some (JArr arr)")
    case True
    then obtain arr where a: "map_of node key = Some (JArr arr)" by blast
    have "height (JArr arr) \<le> b" using v a by (rule valsLe_lookup)
    with v have "valsLe b (flattenUnionInPlace node arr)" by (rule valsLe_flattenUnion)
    then have "valsLe b (AList.delete key (flattenUnionInPlace node arr))" by (rule valsLe_delete)
    then show ?thesis using a v by (simp add: handleUnion_def)
  next
    case False
    then have "handleUnion node key = node"
      by (auto simp: handleUnion_def split: option.splits json.splits)
    then show ?thesis using v by simp
  qed
qed

lemma valsLe_handleTypeArray:
  assumes v: "valsLe b node" and a: "height (JArr typeArr) \<le> b"
  shows "valsLe b (fst (handleTypeArrayInPlace node typeArr path ctx))"
proof -
  define nonNullTypes where "nonNullTypes = filter (\<lambda>t. t \<noteq> ''null'' \<and> t \<noteq> []) (stringsOf typeArr)"
  define firstType where "firstType = (case nonNullTypes of [] \<Rightarrow> ''string'' | t # ts \<Rightarrow> t)"
  have "height (JStr firstType) \<le> b"
  proof (cases nonNullTypes)
    case Nil
    then show ?thesis by (simp add: firstType_def)
  next
    case (Cons t ts)
    then have "t \<in> set (stringsOf typeArr)"
      using nonNullTypes_def by (metis filter_is_subset list.set_intros(1) subsetD)
    then have "height (JStr t) < b" using strings_lt [OF a] by blast
    then show ?thesis using Cons by (simp add: firstType_def del: height.simps)
  qed
  with v have 1: "valsLe b (AList.update ''type'' (JStr firstType) node)" by (rule valsLe_update)
  define node2 where "node2 = (if length nonNullTypes > 1
        then appendHintToNode (AList.update ''type'' (JStr firstType) node) (''Accepts: '' @ Join nonNullTypes '' | '')
        else AList.update ''type'' (JStr firstType) node)"
  have 2: "valsLe b node2"
    unfolding node2_def using 1 by (simp add: valsLe_appendHint)
  have 3: "valsLe b (appendHintToNode node2 ''(nullable)'')"
    using 2 by (rule valsLe_appendHint) simp
  show ?thesis
    unfolding handleTypeArrayInPlace_def Let_def nonNullTypes_def [symmetric]
        firstType_def [symmetric] node2_def [symmetric]
    using 2 3 by simp
qed

lemma valsLe_handleEmptyObjectSchema:
  assumes v: "valsLe b node" and b3: "3 \<le> b"
  shows "valsLe b (handleEmptyObjectSchema node path)"
proof -
  define reason where "reason = JObj [(''type'', JStr ''string''),
        (''description'', JStr ''Brief explanation of why you are calling this tool'')]"
  have hreason: "height reason = 1" by (simp add: reason_def maxList_def keyWeight_def)
  have r1: "height (JArr [JStr ''reason'']) \<le> b" "height (JArr [JStr ''_'']) \<le> b"
    using b3 by (simp_all add: maxList_def)
  have fresh: "height (JObj [(''reason'', reason)]) \<le> b"
    using b3 hreason by (simp add: maxList_def keyWeight_def)
  have A: "valsLe b (AList.update ''required'' (JArr [JStr ''reason''])
               (AList.update ''properties'' (JObj [(''reason'', reason)]) node))"
    by (intro valsLe_update v r1 fresh)
  have B: "valsLe b (AList.update ''required'' (JArr [JStr ''_''])
               (AList.update ''properties'' (JObj (AList.update ''_'' (JObj [(''type'', JStr ''boolean'')]) props)) node))"
    if "map_of node ''properties'' = Some (JObj props)" for props
  proof -
    have "height (JObj props) \<le> b" using v that by (rule valsLe_lookup)
    then have p: "\<forall>kv \<in> set props. keyWeight (fst kv) + height (snd kv) < b" unfolding height_JObj_le by simp
    have "\<forall>kv \<in> set (AList.update ''_'' (JObj [(''type'', JStr ''boolean'')]) props).
            keyWeight (fst kv) + height (snd kv) < b"
    proof
      fix kv assume "kv \<in> set (AList.update ''_'' (JObj [(''type'', JStr ''boolean'')]) props)"
      then have "kv = (''_'', JObj [(''type'', JStr ''boolean'')]) \<or> kv \<in> set props"
        using set_update_subset by fastforce
      then show "keyWeight (fst kv) + height (snd kv) < b"
        using p b3 by (auto simp: maxList_def keyWeight_def)
    qed
    then have "height (JObj (AList.update ''_'' (JObj [(''type'', JStr ''boolean'')]) props)) \<le> b"
      using b3 unfolding height_JObj_le by simp
    then show ?thesis by (intro valsLe_update v r1)
  qed
  have C: "valsLe b (AList.update ''required'' (JArr [JStr ''_'']) node)"
    by (intro valsLe_update v r1)
  show ?thesis
  proof (cases "\<exists>props. map_of node ''properties'' = Some (JObj props)")
    case True
    then obtain props where props: "map_of node ''properties'' = Some (JObj props)" by blast
    show ?thesis
    proof (cases "props = []")
      case True
      then show ?thesis using props A
        by (simp add: handleEmptyObjectSchema_def Let_def reason_def [symmetric] del: height.simps)
    next
      case False
      then show ?thesis using props B [OF props] C v
        by (simp add: handleEmptyObjectSchema_def Let_def reason_def [symmetric] del: height.simps)
    qed
  next
    case False
    then have "handleEmptyObjectSchema node path = AList.update ''required'' (JArr [JStr ''reason''])
               (AList.update ''properties'' (JObj [(''reason'', reason)]) node)"
      by (auto simp: handleEmptyObjectSchema_def Let_def reason_def [symmetric] split: option.splits json.splits)
    then show ?thesis using A by simp
  qed
qed

lemma valsLe_cleanupRequired: "valsLe b node \<Longrightarrow> valsLe b (cleanupRequiredInPlace node)"
proof -
  assume v: "valsLe b node"
  have U: "valsLe b (AList.update ''required'' (JArr (filter P reqArr)) node)"
    if "map_of node ''required'' = Some (JArr reqArr)" for reqArr P
  proof -
    have "height (JArr reqArr) \<le> b" using v that by (rule valsLe_lookup)
    then have "height (JArr (filter P reqArr)) \<le> b" unfolding height_JArr_le by simp
    with v show ?thesis by (rule valsLe_update)
  qed
  have D: "valsLe b (AList.delete ''required'' node)" using v by (rule valsLe_delete)
  show ?thesis
  proof (cases "\<exists>reqArr props. map_of node ''required'' = Some (JArr reqArr) \<and> map_of node ''properties'' = Some (JObj props)")
    case True
    then obtain reqArr props where r: "map_of node ''required'' = Some (JArr reqArr)"
      and p: "map_of node ''properties'' = Some (JObj props)" by blast
    show ?thesis using r p U [OF r] D v
      by (simp add: cleanupRequiredInPlace_def Let_def)
  next
    case False
    then have "cleanupRequiredInPlace node = node"
      by (auto simp: cleanupRequiredInPlace_def split: option.splits json.splits)
    then show ?thesis using v by simp
  qed
qed

lemma valsLe_removeUnsupportedKeywords: "valsLe b node \<Longrightarrow> valsLe b (removeUnsupportedKeywords node)"
  unfolding removeUnsupportedKeywords_def by (rule foldl_preserves) (rule valsLe_delete)

lemma see_ne: "''See: '' @ x \<noteq> ''object''"
  by simp

lemma processObjectNode_vals:
  assumes "processObjectNode node path ctx = Inr (node', ctx')"
  shows "valsLe (pairsMax node) node'"
proof -
  define b where "b = pairsMax node"
  have pairs: "\<forall>kv \<in> set node. keyWeight (fst kv) + height (snd kv) \<le> b"
    unfolding b_def pairsMax_def
    using maxList_le [of "map (\<lambda>kv. keyWeight (fst kv) + height (snd kv)) node"
        "maxList (map (\<lambda>kv. keyWeight (fst kv) + height (snd kv)) node)"] by simp
  show ?thesis
  proof (cases "handleRef node")
    case (Some replaced)
    then obtain refVal where r: "map_of node ''$ref'' = Some (JStr refVal)"
      by (auto simp: handleRef_def split: option.splits json.splits)
    then have "(''$ref'', JStr refVal) \<in> set node" by (rule map_of_SomeD)
    then have "keyWeight ''$ref'' + height (JStr refVal) \<le> b" using pairs by fastforce
    then have b3: "3 \<le> b" by (simp add: keyWeight_def)
    define defName where "defName = rev (takeWhile (\<lambda>c. c \<noteq> CHR ''/'') (rev refVal))"
    define existing where "existing = stringOf (map_of node ''description'')"
    define hint where "hint = (if existing \<noteq> [] then existing @ '' ('' @ (''See: '' @ defName) @ '')''
                       else ''See: '' @ defName)"
    have hint: "hint \<noteq> ''object''"
      unfolding hint_def using hint_paren_ne [of existing "''See: '' @ defName"] see_ne [of defName]
      by (cases "existing = []") simp_all
    have "handleRef node = Some [(''type'', JStr ''object''), (''description'', JStr hint)]"
      unfolding handleRef_def r Let_def hint_def existing_def defName_def by simp
    then have rep: "replaced = [(''type'', JStr ''object''), (''description'', JStr hint)]"
      using Some by simp
    have "valsLe b replaced" unfolding rep valsLe_def using b3 hint by simp
    moreover have "node' = replaced" using assms Some by (simp add: processObjectNode_def)
    ultimately show ?thesis unfolding b_def by simp
  next
    case None
    have v2: "valsLe b (constToEnum node)" using pairs by (rule valsLe_constToEnum)
    define n5 where "n5 = moveUnsupported (handleAdditionalProperties (enumToStrings (constToEnum node)))"
    have v5: "valsLe b n5"
      unfolding n5_def
      by (intro valsLe_moveUnsupported valsLe_handleAdditionalProperties valsLe_enumToStrings v2)
    obtain n6 where n6: "handleAllOf n5 = Inr n6"
      using assms None unfolding processObjectNode_def n5_def [symmetric]
      by (cases "handleAllOf n5") simp_all
    have v6: "valsLe b n6" using v5 n6 by (rule valsLe_handleAllOf)
    define n7 where "n7 = handleUnion (handleUnion n6 ''anyOf'') ''oneOf''"
    have v7: "valsLe b n7" unfolding n7_def by (intro valsLe_handleUnion v6)
    obtain n8 c8 where r8: "flattenTypeArray n7 path ctx = (n8, c8)" by (cases "flattenTypeArray n7 path ctx")
    have v8: "valsLe b n8"
    proof (cases "\<exists>typeVal. map_of n7 ''type'' = Some (JArr typeVal)")
      case True
      then obtain typeVal where t: "map_of n7 ''type'' = Some (JArr typeVal)" by blast
      have "height (JArr typeVal) \<le> b" using v7 t by (rule valsLe_lookup)
      with v7 have "valsLe b (fst (handleTypeArrayInPlace n7 typeVal path ctx))"
        by (rule valsLe_handleTypeArray)
      then show ?thesis using t v7 r8 by (auto simp: flattenTypeArray_def split: if_splits)
    next
      case False
      then have "flattenTypeArray n7 path ctx = (n7, ctx)"
        by (auto simp: flattenTypeArray_def split: option.splits json.splits)
      then show ?thesis using v7 r8 by simp
    qed
    have v9: "valsLe b (addPlaceholder n8 path)"
    proof (cases "map_of n8 ''type'' = Some (JStr ''object'')")
      case True
      have "height (JStr ''object'') \<le> b" using v8 True by (rule valsLe_lookup)
      then have "3 \<le> b" by simp
      with v8 have "valsLe b (handleEmptyObjectSchema n8 path)" by (rule valsLe_handleEmptyObjectSchema)
      then show ?thesis using True by (simp add: addPlaceholder_def)
    next
      case False
      then show ?thesis using v8 by (simp add: addPlaceholder_def)
    qed
    have "processObjectNode node path ctx
            = Inr (removeUnsupportedKeywords (cleanupRequiredInPlace (addPlaceholder n8 path)), c8)"
      by (simp add: processObjectNode_def None n6 [unfolded n5_def] r8 [unfolded n7_def])
    then have "node' = removeUnsupportedKeywords (cleanupRequiredInPlace (addPlaceholder n8 path))"
      using assms by simp
    then show ?thesis unfolding b_def [symmetric]
      by (simp add: valsLe_removeUnsupportedKeywords valsLe_cleanupRequired v9)
  qed
qed

lemma processObjectNode_valsMax:
  "processObjectNode node path ctx = Inr (node', ctx') \<Longrightarrow> valsMax node' \<le> pairsMax node"
  using processObjectNode_vals [of node path ctx node' ctx']
  by (auto simp: valsMax_def maxList_le valsLe_def)

lemma maxList_Cons: "maxList (n # ns) = max n (maxList ns)"
  by (simp add: maxList_def)

lemma valsMax_Cons: "valsMax (kv # rest) = max (height (snd kv)) (valsMax rest)"
  by (simp add: valsMax_def maxList_def)

subsection \<open>The traversal and the entry point\<close>

text \<open>\<^verbatim>\<open>cleanSchemaRecursive\<close>: the node itself first, then every child of the rewritten
  node; \<open>cleanMembers\<close> and \<open>cleanElements\<close> are its two loops over the children.\<close>

function cleanSchemaRecursive :: "json \<Rightarrow> string \<Rightarrow> cleanContext \<Rightarrow> error + json \<times> cleanContext"
  and cleanMembers :: "object \<Rightarrow> string \<Rightarrow> cleanContext \<Rightarrow> error + object \<times> cleanContext"
  and cleanElements :: "json list \<Rightarrow> nat \<Rightarrow> string \<Rightarrow> cleanContext \<Rightarrow> error + json list \<times> cleanContext"
where
  "cleanSchemaRecursive (JObj v) path ctx =
     (case processObjectNode v path ctx of
        Inl e \<Rightarrow> Inl e
      | Inr (v', ctx') \<Rightarrow>
          (case cleanMembers v' path ctx' of
             Inl e \<Rightarrow> Inl e
           | Inr (v'', ctx'') \<Rightarrow> Inr (JObj v'', ctx'')))"
| "cleanSchemaRecursive (JArr v) path ctx =
     (case cleanElements v 0 path ctx of
        Inl e \<Rightarrow> Inl e
      | Inr (v', ctx') \<Rightarrow> Inr (JArr v', ctx'))"
| "cleanSchemaRecursive JNull path ctx = Inr (JNull, ctx)"
| "cleanSchemaRecursive (JBool b) path ctx = Inr (JBool b, ctx)"
| "cleanSchemaRecursive (JNum n) path ctx = Inr (JNum n, ctx)"
| "cleanSchemaRecursive (JStr s) path ctx = Inr (JStr s, ctx)"
| "cleanMembers [] path ctx = Inr ([], ctx)"
| "cleanMembers ((key, child) # rest) path ctx =
     (case cleanSchemaRecursive child (buildPath path key) ctx of
        Inl e \<Rightarrow> Inl e
      | Inr (child', ctx') \<Rightarrow>
          (case cleanMembers rest path ctx' of
             Inl e \<Rightarrow> Inl e
           | Inr (rest', ctx'') \<Rightarrow> Inr ((key, child') # rest', ctx'')))"
| "cleanElements [] i path ctx = Inr ([], ctx)"
| "cleanElements (child # rest) i path ctx =
     (case cleanSchemaRecursive child (path @ ''['' @ itoa i @ '']'') ctx of
        Inl e \<Rightarrow> Inl e
      | Inr (child', ctx') \<Rightarrow>
          (case cleanElements rest (Suc i) path ctx' of
             Inl e \<Rightarrow> Inl e
           | Inr (rest', ctx'') \<Rightarrow> Inr (child' # rest', ctx'')))"
  by pat_completeness auto
termination
  apply (relation "measures
     [\<lambda>x. case x of
            Inl (t, p, c) \<Rightarrow> 2 * height t
          | Inr (Inl (kvs, p, c)) \<Rightarrow> 2 * valsMax kvs + 1
          | Inr (Inr (xs, i, p, c)) \<Rightarrow> 2 * maxList (map height xs) + 1,
      \<lambda>x. case x of
            Inl (t, p, c) \<Rightarrow> 0
          | Inr (Inl (kvs, p, c)) \<Rightarrow> length kvs
          | Inr (Inr (xs, i, p, c)) \<Rightarrow> length xs]")
  subgoal by simp
  subgoal for v path ctx x2 v' ctx'
    using processObjectNode_valsMax [of v path ctx v' ctx'] by (simp add: pairsMax_def del: maxList_le)
  subgoal by simp
  subgoal for key child rest path ctx
    by (simp add: valsMax_Cons max_def)
  subgoal for key child rest path ctx
    by (simp add: valsMax_Cons max_def)
  subgoal for child rest i path ctx
    by (simp add: maxList_Cons max_def)
  subgoal for child rest i path ctx
    by (simp add: maxList_Cons max_def)
  done

text \<open>\<^verbatim>\<open>navigateToPath\<close> followed by an update of the object it returns: empty segments
  are skipped, and a segment that does not lead to an object ends the walk (\<^verbatim>\<open>nil\<close>,
  nothing is changed).\<close>

fun modifyAtPath :: "(object \<Rightarrow> object) \<Rightarrow> string list \<Rightarrow> object \<Rightarrow> object" where
  "modifyAtPath f [] current = f current"
| "modifyAtPath f (part # parts) current =
     (if part = [] then modifyAtPath f parts current
      else (case map_of current part of
              Some (JObj next) \<Rightarrow> AList.update part (JObj (modifyAtPath f parts next)) current
            | _ \<Rightarrow> current))"

definition filterRequired :: "string list \<Rightarrow> object \<Rightarrow> object" where
  "filterRequired fieldNames obj =
     (case map_of obj ''required'' of
        Some (JArr reqArr) \<Rightarrow>
          (let filtered = filter (\<lambda>r. case r of JStr rStr \<Rightarrow> \<not> stringSliceContains fieldNames rStr | _ \<Rightarrow> False) reqArr
           in if filtered = [] then AList.delete ''required'' obj
              else AList.update ''required'' (JArr filtered) obj)
      | _ \<Rightarrow> obj)"

definition applyNullableFields :: "cleanContext \<Rightarrow> object \<Rightarrow> object" where
  "applyNullableFields ctx schema =
     foldl (\<lambda>s entry. modifyAtPath (filterRequired (snd entry)) (Split (fst entry) CHR ''.'') s)
       schema (nullableFields ctx)"

text \<open>The rewriting of \<^verbatim>\<open>CleanJSONSchemaForAntigravityOptimized\<close> between unmarshalling
  and marshalling.\<close>

definition cleanSchemaTree :: "json \<Rightarrow> error + json" where
  "cleanSchemaTree schema =
     (case cleanSchemaRecursive schema [] emptyContext of
        Inl e \<Rightarrow> Inl e
      | Inr (schema', ctx) \<Rightarrow>
          Inr (case schema' of
                 JObj schemaMap \<Rightarrow> JObj (applyNullableFields ctx schemaMap)
               | _ \<Rightarrow> schema'))"

subsection \<open>The schema cache\<close>

record SchemaCache =
  cache :: "(string \<times> string) list"
  maxSize :: nat

definition schemaCache0 :: SchemaCache where
  "schemaCache0 = \<lparr>cache = [], maxSize = 1000\<rparr>"

definition SchemaCache_Get :: "SchemaCache \<Rightarrow> string \<Rightarrow> string option" where
  "SchemaCache_Get c key = map_of (cache c) key"

definition SchemaCache_evictHalf :: "SchemaCache \<Rightarrow> SchemaCache" where
  "SchemaCache_evictHalf c =
     (let keys = sort (map fst (cache c));
          toRemove = length keys div 2
      in c\<lparr>cache := foldl (\<lambda>m k. AList.delete k m) (cache c) (take toRemove keys)\<rparr>)"

definition SchemaCache_Set :: "SchemaCache \<Rightarrow> string \<Rightarrow> string \<Rightarrow> SchemaCache" where
  "SchemaCache_Set c key val =
     (let c1 = (if length (cache c) \<ge> maxSize c then SchemaCache_evictHalf c else c)
      in c1\<lparr>cache := AList.update key val (cache c1)\<rparr>)"


definition GetSchemaCacheStats :: "SchemaCache \<Rightarrow> nat \<times> nat" where
  "GetSchemaCacheStats c = (length (cache c), maxSize c)"

text \<open>The three library functions the cleaner calls: \<^verbatim>\<open>sonic.UnmarshalString\<close>,
  \<^verbatim>\<open>sonic.MarshalString\<close> (each may fail) and the hex SHA-256 digest of
  \<^verbatim>\<open>computeHash\<close>.\<close>

record Library =
  UnmarshalString :: "string \<Rightarrow> json option"
  MarshalString :: "json \<Rightarrow> string option"
  computeHash :: "string \<Rightarrow> string"

definition CleanJSONSchemaForAntigravityOptimized ::
  "Library \<Rightarrow> SchemaCache \<Rightarrow> string \<Rightarrow> (error + string) \<times> SchemaCache" where
  "CleanJSONSchemaForAntigravityOptimized lib c jsonStr =
     (let hash = computeHash lib jsonStr
      in case SchemaCache_Get c hash of
           Some cached \<Rightarrow> (Inr cached, c)
         | None \<Rightarrow>
             (case UnmarshalString lib jsonStr of
                None \<Rightarrow> (Inr jsonStr, c)
              | Some schema \<Rightarrow>
                  (case cleanSchemaTree schema of
                     Inl e \<Rightarrow> (Inl e, c)
                   | Inr schema' \<Rightarrow>
                       (case MarshalString lib schema' of
                          None \<Rightarrow> (Inr jsonStr, c)
                        | Some result \<Rightarrow> (Inr result, SchemaCache_Set c hash result)))))"

section \<open>Inputs and auxiliary notions of the theorems\<close>

subsection \<open>Inputs used by the theorems on the translator\<close>

text \<open>A signature cache that holds nothing and validates nothing (a fresh process).\<close>

definition noSignatures :: SignatureCache where
  "noSignatures = \<lparr>HasValidSignature = (\<lambda>modelName sig. False),
                   GetCachedSignature = (\<lambda>modelName text. [])\<rparr>"

text \<open>A signature cache that validates every non-empty signature and has no entry.\<close>

definition anySignature :: SignatureCache where
  "anySignature = \<lparr>HasValidSignature = (\<lambda>modelName sig. sig \<noteq> []),
                   GetCachedSignature = (\<lambda>modelName text. [])\<rparr>"

definition noParse :: "string \<Rightarrow> json option" where
  "noParse s = None"

definition emptyItem :: ClaudeContentItem where
  "emptyItem = \<lparr>ci_Type = [], ci_Text = [], ci_Signature = [], ci_Thinking = [], ci_Name = [],
     ci_ID = [], ci_Input = None, ci_ToolUseID = [], ci_Content = None, ci_Source = None\<rparr>"


text \<open>The function name the specification describes: the tool-use id without its last
  two dash-delimited segments.\<close>

definition stripTrailingTwoSegments :: "string \<Rightarrow> string" where
  "stripTrailingTwoSegments toolUseID = Join (butlast (butlast (Split toolUseID CHR ''-''))) ''-''"

definition emptyRequest :: ClaudeRequest where
  "emptyRequest = \<lparr>r_Messages = [], r_Thinking = None, r_Temperature = None, r_TopP = None,
     r_TopK = None, r_MaxTokens = None\<rparr>"

text \<open>An assistant turn with one unsigned thinking block, and the two thinking
  directives.\<close>

definition unsignedThoughtMessages :: "ClaudeMessage list" where
  "unsignedThoughtMessages =
     [\<lparr>m_Role = ''assistant'',
       m_Content = ContentArray [emptyItem\<lparr>ci_Type := ''thinking'', ci_Thinking := ''hm''\<rparr>,
                                 emptyItem\<lparr>ci_Type := ''text'', ci_Text := ''hi''\<rparr>]\<rparr>]"

definition adaptiveRequest :: ClaudeRequest where
  "adaptiveRequest = emptyRequest\<lparr>r_Messages := unsignedThoughtMessages,
     r_Thinking := Some \<lparr>th_Type = ''adaptive'', th_BudgetTokens = None\<rparr>\<rparr>"

definition budgetRequest :: ClaudeRequest where
  "budgetRequest = emptyRequest\<lparr>r_Messages := unsignedThoughtMessages,
     r_Thinking := Some \<lparr>th_Type = ''enabled'', th_BudgetTokens = Some 1024\<rparr>\<rparr>"

text \<open>The function name of the function-response part a translator emitted, if any.\<close>

definition emittedFuncName :: "Part option \<Rightarrow> string option" where
  "emittedFuncName part =
     (case part of None \<Rightarrow> None
      | Some p \<Rightarrow> (case p_FunctionResponse p of None \<Rightarrow> None | Some fr \<Rightarrow> Some (fr_Name fr)))"

text \<open>The \<^verbatim>\<open>thinkingConfig\<close> of the output, if the output has one.\<close>

definition outputThinkingConfig :: "RequestContent \<Rightarrow> ThinkingConfig option" where
  "outputThinkingConfig out =
     (case rc_GenerationConfig out of None \<Rightarrow> None | Some g \<Rightarrow> gc_ThinkingConfig g)"

text \<open>A thinking block is skipped when no signature for it validates.\<close>

definition thinkingSkipped :: "SignatureCache \<Rightarrow> string \<Rightarrow> ClaudeContentItem \<Rightarrow> bool" where
  "thinkingSkipped sigCache modelName ci = snd (snd (fst (processThinkingContentV2 sigCache ci modelName True)))"


text \<open>An adaptive directive on a request without thinking blocks.\<close>

definition adaptiveNoThoughts :: ClaudeRequest where
  "adaptiveNoThoughts = emptyRequest\<lparr>r_Thinking := Some \<lparr>th_Type = ''adaptive'', th_BudgetTokens = Some 5\<rparr>\<rparr>"

subsection \<open>Inputs used by the theorems on the schema cleaner\<close>




text \<open>The result of the cleaner on the cache as it is when the process starts: nothing is
  served from the cache.\<close>

definition recomputed :: "Library \<Rightarrow> string \<Rightarrow> error + string" where
  "recomputed lib s = fst (CleanJSONSchemaForAntigravityOptimized lib schemaCache0 s)"


text \<open>The schema of the type-array scenario, with the nullable property at the root and one
  level below.\<close>

definition ageSchema :: json where
  "ageSchema = JObj [(''type'', JStr ''object''),
     (''properties'', JObj [(''age'', JObj [(''type'', JArr [JStr ''integer'', JStr ''null''])])]),
     (''required'', JArr [JStr ''age''])]"

definition nestedAgeSchema :: json where
  "nestedAgeSchema = JObj [(''type'', JStr ''object''),
     (''properties'', JObj [(''user'', JObj [(''type'', JStr ''object''),
        (''properties'', JObj [(''age'', JObj [(''type'', JArr [JStr ''integer'', JStr ''null''])])]),
        (''required'', JArr [JStr ''age''])])]),
     (''required'', JArr [JStr ''user''])]"





definition keywordProperty :: object where
  "keywordProperty = [(''type'', JStr ''object''),
     (''properties'', JObj [(''definitions'', JObj [(''type'', JStr ''string'')])]),
     (''required'', JArr [JStr ''definitions''])]"









text \<open>A schema is settled when no rule of \<^verbatim>\<open>processObjectNode\<close> applies to any of its nodes:
  no keyword that is rewritten or removed, no enum that gets a hint or holds a value that
  is not a string, every node typed \<^verbatim>\<open>object\<close> with properties and (below the root) a
  non-empty required list, every required entry a property. The paths are those of the
  traversal.\<close>

definition isArray :: "json option \<Rightarrow> bool" where
  "isArray x = (case x of Some (JArr a) \<Rightarrow> True | _ \<Rightarrow> False)"

definition isNonEmptyArray :: "json option \<Rightarrow> bool" where
  "isNonEmptyArray x = (case x of Some (JArr a) \<Rightarrow> a \<noteq> [] | _ \<Rightarrow> False)"

definition isScalar :: "json option \<Rightarrow> bool" where
  "isScalar x = (case x of None \<Rightarrow> False | Some (JObj m) \<Rightarrow> False | Some (JArr a) \<Rightarrow> False | Some v \<Rightarrow> True)"

definition isString :: "json \<Rightarrow> bool" where
  "isString x = (case x of JStr s \<Rightarrow> True | _ \<Rightarrow> False)"

definition settledNode :: "string \<Rightarrow> object \<Rightarrow> bool" where
  "settledNode path node \<longleftrightarrow>
     list_all (\<lambda>key. map_of node key = None) (''const'' # ''additionalProperties'' # removeKeys)
     \<and> (case map_of node ''enum'' of
          Some (JArr enumVal) \<Rightarrow> list_all isString enumVal \<and> \<not> (length enumVal > 1 \<and> length enumVal \<le> 10)
        | _ \<Rightarrow> True)
     \<and> list_all (\<lambda>key. \<not> isScalar (map_of node key)) unsupportedKeys
     \<and> \<not> isArray (map_of node ''allOf'')
     \<and> \<not> isNonEmptyArray (map_of node ''anyOf'')
     \<and> \<not> isNonEmptyArray (map_of node ''oneOf'')
     \<and> \<not> isNonEmptyArray (map_of node ''type'')
     \<and> (if map_of node ''type'' = Some (JStr ''object'')
        then (case map_of node ''properties'' of
                Some (JObj props) \<Rightarrow> props \<noteq> [] \<and> (path = [] \<or> isNonEmptyArray (map_of node ''required''))
              | _ \<Rightarrow> False)
        else True)
     \<and> (case map_of node ''required'' of
          Some (JArr reqArr) \<Rightarrow>
            (case map_of node ''properties'' of
               Some (JObj props) \<Rightarrow> list_all (validRequired props) reqArr
             | _ \<Rightarrow> True)
        | _ \<Rightarrow> True)"

fun settled :: "string \<Rightarrow> json \<Rightarrow> bool"
  and settledMembers :: "string \<Rightarrow> object \<Rightarrow> bool"
  and settledElements :: "string \<Rightarrow> nat \<Rightarrow> json list \<Rightarrow> bool"
where
  "settled path (JObj node) = (settledNode path node \<and> settledMembers path node)"
| "settled path (JArr xs) = settledElements path 0 xs"
| "settled path JNull = True"
| "settled path (JBool b) = True"
| "settled path (JNum n) = True"
| "settled path (JStr s) = True"
| "settledMembers path [] = True"
| "settledMembers path ((key, child) # rest) = (settled (buildPath path key) child \<and> settledMembers path rest)"
| "settledElements path i [] = True"
| "settledElements path i (child # rest) =
     (settled (path @ ''['' @ itoa i @ '']'') child \<and> settledElements path (Suc i) rest)"




section \<open>Theorems on the request translator\<close>

lemma Split_ne: "Split s sep \<noteq> []"
  by (induction s) (auto split: list.splits)

lemma length_Split: "length (Split s sep) = Suc (length (filter (\<lambda>c. c = sep) s))"
  by (induction s) (auto split: list.splits simp: Split_ne)

lemma length_Split_gt1: "Suc 0 < length (Split s sep) \<longleftrightarrow> sep \<in> set s"
  by (auto simp: length_Split filter_empty_conv)

lemma butlast_butlast_take: "butlast (butlast xs) = take (length xs - 2) xs"
  by (simp add: butlast_conv_take min_def numeral_2_eq_2)

lemma toolResultFuncName_eq:
  "toolResultFuncName i = (if CHR ''-'' \<in> set i then stripTrailingTwoSegments i else i)"
  by (simp add: toolResultFuncName_def stripTrailingTwoSegments_def Let_def length_Split_gt1
      butlast_butlast_take)

text \<open>Claim C9, as the code has it: a tool result with a non-empty tool-use id yields a
  function-response part whose name is the id without its last two dash-delimited
  segments when the id contains a dash, and the id itself when it contains none; both
  translators derive the same name.\<close>

theorem tool_result_function_name:
  "ci_ToolUseID ci \<noteq> [] \<Longrightarrow>
     emittedFuncName (processToolResultContentV2 ci) =
       Some (if CHR ''-'' \<in> set (ci_ToolUseID ci) then stripTrailingTwoSegments (ci_ToolUseID ci)
             else ci_ToolUseID ci)
     \<and> emittedFuncName (processToolResultContent ci) = emittedFuncName (processToolResultContentV2 ci)"
  by (simp add: emittedFuncName_def processToolResultContentV2_def processToolResultContent_def
      toolResultFuncName_eq emptyPart_def)

text \<open>The scenario of claim C9: the id \<^verbatim>\<open>call-abc-123-456\<close> gives the name \<^verbatim>\<open>call-abc\<close>.\<close>

theorem tool_result_function_name_witness:
  "ci_ToolUseID (emptyItem\<lparr>ci_Type := ''tool_result'', ci_ToolUseID := ''call-abc-123-456''\<rparr>) \<noteq> []
   \<and> emittedFuncName (processToolResultContentV2
         (emptyItem\<lparr>ci_Type := ''tool_result'', ci_ToolUseID := ''call-abc-123-456''\<rparr>)) = Some ''call-abc''"
  using tool_result_function_name [of "emptyItem\<lparr>ci_Type := ''tool_result'', ci_ToolUseID := ''call-abc-123-456''\<rparr>"]
  by (simp add: stripTrailingTwoSegments_def emptyItem_def)

text \<open>Claim C9 as stated fails for an id without a dash: the name is the whole id, where
  stripping two segments leaves nothing.\<close>

theorem tool_result_dashless_id_counterexample:
  "emittedFuncName (processToolResultContentV2
      (emptyItem\<lparr>ci_Type := ''tool_result'', ci_ToolUseID := ''toolu01''\<rparr>)) = Some ''toolu01''
   \<and> stripTrailingTwoSegments ''toolu01'' = []"
  by (simp add: emittedFuncName_def processToolResultContentV2_def toolResultFuncName_def
      stripTrailingTwoSegments_def emptyItem_def emptyPart_def)

text \<open>Claim C10 at the input \<^verbatim>\<open>null\<close>: the V2 translator emits a function call whose
  arguments are \<^verbatim>\<open>null\<close>, the gjson translator drops the block.\<close>

theorem tool_use_null_input_emitted:
  "processToolUseContentV2 anySignature noParse
      (emptyItem\<lparr>ci_Type := ''tool_use'', ci_ID := ''t1'', ci_Name := ''f'', ci_Input := Some JNull\<rparr>) []
     = Some (emptyPart\<lparr>p_ThoughtSignature := ''skip_thought_signature_validator'',
               p_FunctionCall := Some \<lparr>fc_ID = ''t1'', fc_Name = ''f'', fc_Args = JNull\<rparr>\<rparr>)
   \<and> processToolUseContent anySignature noParse
      (emptyItem\<lparr>ci_Type := ''tool_use'', ci_ID := ''t1'', ci_Name := ''f'', ci_Input := Some JNull\<rparr>) ''m'' []
     = None"
  by (simp add: processToolUseContentV2_def processToolUseContent_def anySignature_def emptyItem_def)

lemma toolUseV2_dropped:
  assumes "ci_Input ci = None \<or>
           (\<exists>v. ci_Input ci = Some v \<and> unmarshalMap v = None \<and>
                (\<forall>s. v = JStr s \<longrightarrow> (\<forall>w. unmarshalString s = Some w \<longrightarrow> unmarshalMap w = None)))"
  shows "processToolUseContentV2 sigCache unmarshalString ci sig = None"
  using assms
  by (auto simp: processToolUseContentV2_def Let_def split: option.splits json.splits)

text \<open>Claim C6 at a budget of zero: the gjson translator sets \<^verbatim>\<open>includeThoughts\<close>, the V2
  translator clears it.\<close>

theorem optimized_zero_budget_includes_thoughts:
  "thinkingConfigOptimized True (Some \<lparr>th_Type = ''enabled'', th_BudgetTokens = Some 0\<rparr>)
     = Some \<lparr>tc_ThinkingBudget = Some 0, tc_IncludeThoughts = True, tc_ThinkingLevel = []\<rparr>
   \<and> thinkingConfigV2 True (Some \<lparr>th_Type = ''enabled'', th_BudgetTokens = Some 0\<rparr>)
     = Some \<lparr>tc_ThinkingBudget = Some 0, tc_IncludeThoughts = False, tc_ThinkingLevel = []\<rparr>"
  by (simp add: thinkingConfigOptimized_def thinkingConfigV2_def)

lemma thinkingConfigV2_enabled:
  "thinkingConfigV2 True (Some \<lparr>th_Type = ''enabled'', th_BudgetTokens = Some b\<rparr>)
     = Some \<lparr>tc_ThinkingBudget = Some b, tc_IncludeThoughts = (b \<noteq> 0), tc_ThinkingLevel = []\<rparr>"
  by (simp add: thinkingConfigV2_def)

lemma step_flag: "\<not> enableThoughtTranslate st \<Longrightarrow>
   \<not> enableThoughtTranslate (contentItemStep sigCache u m role ci st)"
  by (auto simp: contentItemStep_def appendOther_def processThinkingContentV2_def Let_def split: option.splits prod.splits)

lemma loop_flag: "\<not> enableThoughtTranslate st \<Longrightarrow>
   \<not> enableThoughtTranslate (contentArrayLoop sigCache u m role cis st)"
  by (induction cis arbitrary: st) (auto simp: step_flag)

lemma step_skipped: "ci_Type ci = ''thinking'' \<Longrightarrow> thinkingSkipped sigCache m ci \<Longrightarrow>
   \<not> enableThoughtTranslate (contentItemStep sigCache u m role ci st)"
  by (auto simp: contentItemStep_def thinkingSkipped_def processThinkingContentV2_def Let_def split: option.splits prod.splits if_splits)

lemma loop_skipped: "ci \<in> set cis \<Longrightarrow> ci_Type ci = ''thinking'' \<Longrightarrow> thinkingSkipped sigCache m ci \<Longrightarrow>
   \<not> enableThoughtTranslate (contentArrayLoop sigCache u m role cis st)"
  by (induction cis arbitrary: st) (auto simp: step_skipped loop_flag)

lemma snd_processMessages_Cons:
  "snd (processMessages sigCache u m (a # msgs) enable) =
     snd (processMessages sigCache u m msgs
            (case m_Content a of
               ContentArray cis \<Rightarrow> snd (turnParts sigCache u m (mapRole (m_Role a)) cis enable)
             | _ \<Rightarrow> enable))"
  by (simp add: Let_def split: MessageContent.splits prod.splits)

lemma turnParts_flag: "\<not> enable \<Longrightarrow> \<not> snd (turnParts sigCache u m role cis enable)"
  by (simp add: turnParts_def Let_def initLoopState_def loop_flag)

lemma messages_flag: "\<not> enable \<Longrightarrow> \<not> snd (processMessages sigCache u m msgs enable)"
proof (induction msgs arbitrary: enable)
  case Nil
  then show ?case by simp
next
  case (Cons a msgs)
  show ?case
    unfolding snd_processMessages_Cons
    by (rule Cons.IH) (use Cons.prems in \<open>simp add: turnParts_flag split: MessageContent.splits\<close>)
qed

lemma messages_skipped:
  "msg \<in> set msgs \<Longrightarrow> m_Content msg = ContentArray cis \<Longrightarrow> ci \<in> set cis \<Longrightarrow>
   ci_Type ci = ''thinking'' \<Longrightarrow> thinkingSkipped sigCache m ci \<Longrightarrow>
   \<not> snd (processMessages sigCache u m msgs enable)"
proof (induction msgs arbitrary: enable)
  case Nil
  then show ?case by simp
next
  case (Cons a msgs)
  show ?case
  proof (cases "a = msg")
    case True
    have "\<not> snd (turnParts sigCache u m (mapRole (m_Role a)) cis enable)"
      using Cons.prems by (simp add: turnParts_def Let_def loop_skipped)
    then show ?thesis
      unfolding snd_processMessages_Cons using True Cons.prems(2)
      by (simp add: messages_flag)
  next
    case False
    then have "msg \<in> set msgs" using Cons.prems(1) by simp
    then show ?thesis
      unfolding snd_processMessages_Cons using Cons.IH Cons.prems by blast
  qed
qed

lemma thinkingConfigV2_disabled: "thinkingConfigV2 False t = None"
  by (simp add: thinkingConfigV2_def split: option.splits)









text \<open>Claim C5 as stated fails: after an unsigned thinking block, an adaptive directive
  produces no \<^verbatim>\<open>thinkingConfig\<close>.\<close>

theorem adaptive_suppressed_counterexample:
  "thinkingSkipped noSignatures ''m'' (emptyItem\<lparr>ci_Type := ''thinking'', ci_Thinking := ''hm''\<rparr>)
   \<and> outputThinkingConfig (ConvertClaudeRequestToAntigravityV2 noSignatures noParse ''m'' adaptiveRequest) = None"
  by (simp add: thinkingSkipped_def outputThinkingConfig_def ConvertClaudeRequestToAntigravityV2_def adaptiveRequest_def emptyRequest_def unsignedThoughtMessages_def
     mapRole_def turnParts_def initLoopState_def contentItemStep_def processThinkingContentV2_def noSignatures_def emptyItem_def
     generationConfigV2_def thinkingConfigV2_def Let_def SplitN2_def appendOther_def)

text \<open>Claim C5, as the code has it: once a thinking block was skipped, the output has no
  \<^verbatim>\<open>thinkingConfig\<close>, whatever the directive; an adaptive directive gives the fixed
  high level with thoughts included when the flag is still set.\<close>

theorem thinking_config_gated_by_flag:
  "((\<exists>msg cis ci. msg \<in> set (r_Messages req) \<and> m_Content msg = ContentArray cis \<and> ci \<in> set cis
        \<and> ci_Type ci = ''thinking'' \<and> thinkingSkipped sigCache modelName ci)
      \<longrightarrow> outputThinkingConfig (ConvertClaudeRequestToAntigravityV2 sigCache u modelName req) = None)
   \<and> (snd (processMessages sigCache u modelName (r_Messages req) True)
        \<and> (\<exists>t. r_Thinking req = Some t \<and> th_Type t = ''adaptive'')
      \<longrightarrow> outputThinkingConfig (ConvertClaudeRequestToAntigravityV2 sigCache u modelName req)
            = Some \<lparr>tc_ThinkingBudget = None, tc_IncludeThoughts = True, tc_ThinkingLevel = ''high''\<rparr>)"
proof (intro conjI impI)
  assume "\<exists>msg cis ci. msg \<in> set (r_Messages req) \<and> m_Content msg = ContentArray cis \<and> ci \<in> set cis
        \<and> ci_Type ci = ''thinking'' \<and> thinkingSkipped sigCache modelName ci"
  then have "\<not> snd (processMessages sigCache u modelName (r_Messages req) True)"
    using messages_skipped [of _ "r_Messages req" _ _ sigCache modelName u True] by blast
  then show "outputThinkingConfig (ConvertClaudeRequestToAntigravityV2 sigCache u modelName req) = None"
    by (auto simp: ConvertClaudeRequestToAntigravityV2_def outputThinkingConfig_def
        generationConfigV2_def thinkingConfigV2_disabled Let_def split: prod.splits option.splits)
next
  assume "snd (processMessages sigCache u modelName (r_Messages req) True)
        \<and> (\<exists>t. r_Thinking req = Some t \<and> th_Type t = ''adaptive'')"
  then show "outputThinkingConfig (ConvertClaudeRequestToAntigravityV2 sigCache u modelName req)
            = Some \<lparr>tc_ThinkingBudget = None, tc_IncludeThoughts = True, tc_ThinkingLevel = ''high''\<rparr>"
    by (auto simp: ConvertClaudeRequestToAntigravityV2_def outputThinkingConfig_def
        generationConfigV2_def thinkingConfigV2_def Let_def split: prod.splits option.splits)
qed

text \<open>Both cases of the theorem on claim C5, on concrete requests.\<close>

theorem thinking_config_gated_by_flag_witness:
  "(\<exists>msg cis ci. msg \<in> set (r_Messages budgetRequest) \<and> m_Content msg = ContentArray cis \<and> ci \<in> set cis
        \<and> ci_Type ci = ''thinking'' \<and> thinkingSkipped noSignatures ''m'' ci)
   \<and> outputThinkingConfig (ConvertClaudeRequestToAntigravityV2 noSignatures noParse ''m'' budgetRequest) = None
   \<and> snd (processMessages noSignatures noParse ''m'' (r_Messages adaptiveNoThoughts) True)
   \<and> (\<exists>t. r_Thinking adaptiveNoThoughts = Some t \<and> th_Type t = ''adaptive'')
   \<and> outputThinkingConfig (ConvertClaudeRequestToAntigravityV2 noSignatures noParse ''m'' adaptiveNoThoughts)
       = Some \<lparr>tc_ThinkingBudget = None, tc_IncludeThoughts = True, tc_ThinkingLevel = ''high''\<rparr>"
proof -
  have h1: "\<exists>msg cis ci. msg \<in> set (r_Messages budgetRequest) \<and> m_Content msg = ContentArray cis \<and> ci \<in> set cis
        \<and> ci_Type ci = ''thinking'' \<and> thinkingSkipped noSignatures ''m'' ci"
    apply (rule exI [of _ "hd unsignedThoughtMessages"])
    apply (rule exI [of _ "[emptyItem\<lparr>ci_Type := ''thinking'', ci_Thinking := ''hm''\<rparr>,
                                 emptyItem\<lparr>ci_Type := ''text'', ci_Text := ''hi''\<rparr>]"])
    apply (rule exI [of _ "emptyItem\<lparr>ci_Type := ''thinking'', ci_Thinking := ''hm''\<rparr>"])
    apply (simp add: budgetRequest_def emptyRequest_def unsignedThoughtMessages_def thinkingSkipped_def
        processThinkingContentV2_def noSignatures_def emptyItem_def Let_def)
    done
  have h2: "snd (processMessages noSignatures noParse ''m'' (r_Messages adaptiveNoThoughts) True)
        \<and> (\<exists>t. r_Thinking adaptiveNoThoughts = Some t \<and> th_Type t = ''adaptive'')"
    by (simp add: adaptiveNoThoughts_def emptyRequest_def)
  show ?thesis
    using h1 h2 thinking_config_gated_by_flag [of budgetRequest noSignatures "''m''" noParse]
      thinking_config_gated_by_flag [of adaptiveNoThoughts noSignatures "''m''" noParse]
    by blast
qed

section \<open>Theorems on the schema cleaner\<close>













text \<open>Claim C1 on the scenario of the specification. With the nullable property \<^verbatim>\<open>age\<close> at the
  root, the type becomes \<^verbatim>\<open>integer\<close>, but no hint is appended and \<^verbatim>\<open>age\<close> stays required:
  the path \<^verbatim>\<open>properties.age\<close> does not contain \<^verbatim>\<open>.properties.\<close>. One level below, the hint
  is appended, \<^verbatim>\<open>age\<close> stays required in its owner, and the owner \<^verbatim>\<open>user\<close> is removed from
  the required list of the root: the loop stops at the first segment \<^verbatim>\<open>properties\<close>.\<close>

theorem nullable_root_property_stays_required:
  "cleanSchemaTree ageSchema = Inr (JObj [(''type'', JStr ''object''),
     (''properties'', JObj [(''age'', JObj [(''type'', JStr ''integer'')])]),
     (''required'', JArr [JStr ''age''])])
   \<and> cleanSchemaTree nestedAgeSchema = Inr (JObj [(''type'', JStr ''object''),
     (''properties'', JObj [(''user'', JObj [(''type'', JStr ''object''),
        (''properties'', JObj [(''age'', JObj [(''type'', JStr ''integer''), (''description'', JStr ''(nullable)'')])]),
        (''required'', JArr [JStr ''age''])])])])"
  by code_simp

lemma nullable_property_under_items_removed:
  "cleanSchemaTree (JObj [(''type'', JStr ''array''),
      (''items'', JObj [(''type'', JStr ''object''),
         (''properties'', JObj [(''age'', JObj [(''type'', JArr [JStr ''integer'', JStr ''null''])]),
                               (''name'', JObj [(''type'', JStr ''string'')])]),
         (''required'', JArr [JStr ''age'', JStr ''name''])])])
   = Inr (JObj [(''type'', JStr ''array''),
      (''items'', JObj [(''type'', JStr ''object''),
         (''properties'', JObj [(''age'', JObj [(''type'', JStr ''integer''), (''description'', JStr ''(nullable)'')]),
                               (''name'', JObj [(''type'', JStr ''string'')])]),
         (''required'', JArr [JStr ''name''])])])"
  by code_simp


lemma keyword_named_property_dropped:
  "cleanSchemaTree (JObj keywordProperty) = Inr (JObj [(''type'', JStr ''object''),
     (''properties'', JObj []), (''required'', JArr [JStr ''definitions''])])"
  by code_simp












lemma settledNodeD:
  assumes "settledNode path node"
  shows "map_of node ''$ref'' = None" "map_of node ''const'' = None"
    "map_of node ''additionalProperties'' = None"
    "\<forall>key \<in> set removeKeys. map_of node key = None"
    "\<forall>key \<in> set unsupportedKeys. \<not> isScalar (map_of node key)"
    "\<not> isArray (map_of node ''allOf'')"
    "\<not> isNonEmptyArray (map_of node ''anyOf'')"
    "\<not> isNonEmptyArray (map_of node ''oneOf'')"
    "\<not> isNonEmptyArray (map_of node ''type'')"
  using assms by (simp_all add: settledNode_def list_all_iff removeKeys_def)

lemma settledNode_enum:
  assumes "settledNode path node" and "map_of node ''enum'' = Some (JArr enumVal)"
  shows "list_all isString enumVal" "\<not> (length enumVal > 1 \<and> length enumVal \<le> 10)"
  using assms by (simp_all add: settledNode_def)

lemma settledNode_object:
  assumes "settledNode path node" and "map_of node ''type'' = Some (JStr ''object'')"
  shows "\<exists>props. map_of node ''properties'' = Some (JObj props) \<and> props \<noteq> []
           \<and> (path = [] \<or> isNonEmptyArray (map_of node ''required''))"
  using assms by (auto simp: settledNode_def split: option.splits json.splits)

lemma settledNode_required:
  assumes "settledNode path node" and "map_of node ''required'' = Some (JArr reqArr)"
    and "map_of node ''properties'' = Some (JObj props)"
  shows "list_all (validRequired props) reqArr"
  using assms by (simp add: settledNode_def)

lemma strings_fixed: "list_all isString xs \<Longrightarrow> map JStr (map fmtSprint xs) = xs"
  by (induction xs) (auto simp: isString_def split: json.splits)

lemma settled_handleRef: "settledNode path node \<Longrightarrow> handleRef node = None"
  by (simp add: handleRef_def settledNodeD(1))

lemma settled_constToEnum: "settledNode path node \<Longrightarrow> constToEnum node = node"
  by (simp add: constToEnum_def settledNodeD(2))

lemma settled_enumToStrings: "settledNode path node \<Longrightarrow> enumToStrings node = node"
proof -
  assume s: "settledNode path node"
  show ?thesis
  proof (cases "\<exists>xs. map_of node ''enum'' = Some (JArr xs)")
    case True
    then obtain xs where xs: "map_of node ''enum'' = Some (JArr xs)" by blast
    have 1: "map JStr (map fmtSprint xs) = xs" using settledNode_enum(1) [OF s xs] by (rule strings_fixed)
    have 2: "(length xs > 1 \<and> length xs \<le> 10) = False" using settledNode_enum(2) [OF s xs] by simp
    have 3: "AList.update ''enum'' (JArr xs) node = node" using xs by (rule AList.update_triv)
    show ?thesis unfolding enumToStrings_unfold xs option.case json.case 1 2 if_False by (rule 3)
  next
    case False
    then show ?thesis unfolding enumToStrings_unfold by (auto split: option.splits json.splits)
  qed
qed

lemma settled_handleAdditionalProperties: "settledNode path node \<Longrightarrow> handleAdditionalProperties node = node"
  by (simp add: handleAdditionalProperties_def settledNodeD(3))

lemma moveConstraint_id: "\<not> isScalar (map_of node key) \<Longrightarrow> moveConstraint node key = node"
  by (auto simp: moveConstraint_def isScalar_def split: option.splits json.splits)

lemma foldl_id: "\<forall>x \<in> set xs. f a x = a \<Longrightarrow> foldl f a xs = a"
  by (induction xs) simp_all

lemma settled_moveUnsupported: "settledNode path node \<Longrightarrow> moveUnsupported node = node"
  unfolding moveUnsupported_def using settledNodeD(5) [of path node]
  by (intro foldl_id) (simp add: moveConstraint_id)

lemma settled_handleAllOf: "settledNode path node \<Longrightarrow> handleAllOf node = Inr node"
  using settledNodeD(6) [of path node]
  by (auto simp: handleAllOf_def isArray_def split: option.splits json.splits)

lemma handleUnion_id: "\<not> isNonEmptyArray (map_of node key) \<Longrightarrow> handleUnion node key = node"
  by (auto simp: handleUnion_def isNonEmptyArray_def split: option.splits json.splits)

lemma settled_flattenTypeArray: "settledNode path node \<Longrightarrow> flattenTypeArray node path ctx = (node, ctx)"
  using settledNodeD(9) [of path node]
  by (auto simp: flattenTypeArray_def isNonEmptyArray_def split: option.splits json.splits)

lemma settled_addPlaceholder: "settledNode path node \<Longrightarrow> addPlaceholder node path = node"
proof -
  assume s: "settledNode path node"
  show ?thesis
  proof (cases "map_of node ''type'' = Some (JStr ''object'')")
    case True
    from settledNode_object [OF s True] obtain props where p: "map_of node ''properties'' = Some (JObj props)"
      and ne: "props \<noteq> []" and r: "path = [] \<or> isNonEmptyArray (map_of node ''required'')" by blast
    have "handleEmptyObjectSchema node path = node"
      using p ne r
      by (auto simp: handleEmptyObjectSchema_def Let_def isNonEmptyArray_def split: option.splits json.splits)
    then show ?thesis using True by (simp add: addPlaceholder_def)
  next
    case False
    then show ?thesis by (simp add: addPlaceholder_def)
  qed
qed

lemma filter_all: "list_all P xs \<Longrightarrow> filter P xs = xs"
  by (induction xs) simp_all

lemma settled_cleanupRequired: "settledNode path node \<Longrightarrow> cleanupRequiredInPlace node = node"
proof -
  assume s: "settledNode path node"
  show ?thesis
  proof (cases "\<exists>reqArr props. map_of node ''required'' = Some (JArr reqArr) \<and> map_of node ''properties'' = Some (JObj props)")
    case True
    then obtain reqArr props where r: "map_of node ''required'' = Some (JArr reqArr)"
      and p: "map_of node ''properties'' = Some (JObj props)" by blast
    have "filter (validRequired props) reqArr = reqArr"
      using settledNode_required [OF s r p] by (rule filter_all)
    then show ?thesis using r p by (simp add: cleanupRequiredInPlace_def Let_def)
  next
    case False
    then show ?thesis
      by (auto simp: cleanupRequiredInPlace_def split: option.splits json.splits)
  qed
qed

lemma delete_absent: "map_of node key = None \<Longrightarrow> AList.delete key node = node"
  by (simp add: map_of_eq_None_iff)

lemma settled_removeUnsupportedKeywords: "settledNode path node \<Longrightarrow> removeUnsupportedKeywords node = node"
  unfolding removeUnsupportedKeywords_def using settledNodeD(4) [of path node]
  by (intro foldl_id) (simp add: delete_absent)

lemma settled_processObjectNode:
  assumes "settledNode path node"
  shows "processObjectNode node path ctx = Inr (node, ctx)"
  using assms
  by (simp add: processObjectNode_def settled_handleRef [OF assms] settled_constToEnum [OF assms]
      settled_enumToStrings [OF assms] settled_handleAdditionalProperties [OF assms]
      settled_moveUnsupported [OF assms] settled_handleAllOf [OF assms]
      handleUnion_id settledNodeD(7,8) settled_flattenTypeArray [OF assms]
      settled_addPlaceholder [OF assms] settled_cleanupRequired [OF assms]
      settled_removeUnsupportedKeywords [OF assms])

lemma settled_fixed:
  "settled path t \<Longrightarrow> cleanSchemaRecursive t path ctx = Inr (t, ctx)"
  "settledMembers path node \<Longrightarrow> cleanMembers node path ctx = Inr (node, ctx)"
  "settledElements path i xs \<Longrightarrow> cleanElements xs i path ctx = Inr (xs, ctx)"
proof (induction path t and path node and path i xs arbitrary: ctx and ctx and ctx
    rule: settled_settledMembers_settledElements.induct)
  case (1 path node)
  then show ?case by (simp add: settled_processObjectNode)
qed simp_all

lemma applyNullableFields_empty: "applyNullableFields emptyContext schemaMap = schemaMap"
  by (simp add: applyNullableFields_def emptyContext_def)

lemma settled_text_idempotent:
  assumes "UnmarshalString lib s = Some schema" and "cleanSchemaTree schema = Inr t"
    and "MarshalString lib t = Some s'" and "UnmarshalString lib s' = Some t" and "settled [] t"
  shows "recomputed lib s = Inr s'" and "recomputed lib s' = Inr s'"
proof -
  have fixed: "cleanSchemaTree t = Inr t"
    using settled_fixed(1) [OF assms(5), of emptyContext]
    by (cases t) (simp_all add: cleanSchemaTree_def applyNullableFields_empty)
  show "recomputed lib s = Inr s'"
    using assms(1,2,3)
    by (simp add: recomputed_def CleanJSONSchemaForAntigravityOptimized_def SchemaCache_Get_def
        schemaCache0_def Let_def)
  show "recomputed lib s' = Inr s'"
    using assms(3,4) fixed
    by (simp add: recomputed_def CleanJSONSchemaForAntigravityOptimized_def SchemaCache_Get_def
        schemaCache0_def Let_def)
qed



end
